theory Spec2Isabelle
  imports Main
begin

section \<open>The sortable controller of \<open>src/ui/Sortable.ts\<close>\<close>

text \<open>
  The class \<open>Sortable\<close> wires pointer events to one \<open>SortableInteraction\<close> at a time and
  publishes \<open>start\<close>, \<open>end\<close> and \<open>changed\<close>. Every method is embedded as a function that
  takes the state and returns the new one. The state holds the fields of the class, and the
  part of the page the class acts on: the registered listeners, the document, and the
  promises whose \<open>then\<close> callback has not run yet.

  The state also keeps a trace: every call the controller makes on a collaborator, the
  fulfilment of a promise, and the write that clears the interaction reference, is
  appended to it in program order. Claims about ordering are statements about this trace.
\<close>

subsection \<open>Data\<close>

text \<open>An \<open>HTMLElement\<close> is known by its identity; \<open>null\<close> is \<open>None\<close>.\<close>

type_synonym node = nat

text \<open>
  \<open>SortableConfig\<close> (lines 11-15). \<open>handle\<close> and \<open>enabled\<close> are optional in the
  interface.
\<close>

record SortableConfig =
  items :: string
  enabled :: "bool option"
  handle :: "string option"

text \<open>
  \<open>SortableResult\<close> (lines 17-20). The interface declares \<open>item: HTMLElement\<close>; the cast
  at line 101 lets \<open>null\<close> through at run time, so the field is optional here.
\<close>

record SortableResult =
  item :: "node option"
  before :: "node option"

text \<open>
  \<open>SortableOnChangedData\<close> (lines 25-29). Its fields are \<open>items\<close> and \<open>result\<close> in the
  source; \<open>items\<close> is taken by the configuration.
\<close>

record SortableOnChangedData =
  data_items :: "node list"
  data_result :: SortableResult

text \<open>The fields of a \<open>MouseEvent\<close> that the controller reads.\<close>

record MouseEvent =
  target :: "node option"
  relatedTarget :: "node option"
  screenX :: int
  screenY :: int

text \<open>The values handed to \<open>emitter.emit\<close> as the event argument.\<close>

datatype jsvalue =
    JSUndefined
  | JSElement "node option"
  | JSArray "node option list"
  | JSChanged SortableOnChangedData

text \<open>
  Where a listener is attached: \<open>document.body\<close>, \<open>window\<close>, or an element (the
  container).
\<close>

datatype EventTarget = Body | Window | Element node

text \<open>
  The listener objects: the four bound methods created once in the constructor
  (\<open>this.listeners\<close>, lines 56-61), and the intermediate listeners that \<open>delegate\<close>
  creates, one new object for each call.
\<close>

datatype listener =
    ListenerMove
  | ListenerEnd
  | ListenerMouseOut
  | ListenerScroll
  | Intermediate nat

type_synonym registration = "EventTarget \<times> string \<times> listener"

datatype action =
    AddListener EventTarget string listener
  | RemoveListener EventTarget string listener
  | DelegateListener EventTarget string string nat
  | Construct node "node option" string int int
  | CallStart
  | CallOnMove int int
  | CallOnScroll
  | CallDrop int int
  | CallAbort
  | Settled SortableResult
  | QueryItems string node
  | ReadOrderHasChanged bool
  | ClearInteraction
  | Emit string jsvalue
  | PreventDefault

text \<open>
  The collaborators of the controller. Their code is not in \<open>src/\<close>, so they are
  parameters: \<open>'d\<close> is the document and \<open>'i\<close> the state of a \<open>SortableInteraction\<close>.
  \<^item> \<open>matches\<close> is \<open>Element.matches\<close>; \<open>closest\<close>, \<open>find_dom\<close> (\<open>find\<close> in the source) and
    \<open>findOne\<close> are the queries of \<open>dom/traverse\<close>;
  \<^item> \<open>interaction_new\<close> is the constructor of \<open>SortableInteraction\<close> and the other
    \<open>interaction_\<close> fields are its methods. A method may change the interaction and the
    document. \<open>drop\<close> and \<open>abort\<close> return a promise; the value given here is the value the
    promise is fulfilled with.
\<close>

record ('i, 'd) env =
  matches :: "'d \<Rightarrow> node \<Rightarrow> string \<Rightarrow> bool"
  closest :: "'d \<Rightarrow> node \<Rightarrow> string \<Rightarrow> node option"
  find_dom :: "'d \<Rightarrow> string \<Rightarrow> node \<Rightarrow> node list"
  findOne :: "'d \<Rightarrow> string \<Rightarrow> node option"
  interaction_new :: "node \<Rightarrow> node option \<Rightarrow> string \<Rightarrow> int \<Rightarrow> int \<Rightarrow> 'i"
  interaction_start :: "'i \<Rightarrow> 'd \<Rightarrow> 'i \<times> 'd"
  interaction_onMove :: "int \<Rightarrow> int \<Rightarrow> 'i \<Rightarrow> 'd \<Rightarrow> 'i \<times> 'd"
  interaction_onScroll :: "'i \<Rightarrow> 'd \<Rightarrow> 'i \<times> 'd"
  interaction_drop :: "int \<Rightarrow> int \<Rightarrow> 'i \<Rightarrow> 'd \<Rightarrow> SortableResult \<times> 'i \<times> 'd"
  interaction_abort :: "'i \<Rightarrow> 'd \<Rightarrow> SortableResult \<times> 'i \<times> 'd"
  interaction_orderHasChanged :: "'i \<Rightarrow> bool"

text \<open>
  The state. \<open>container\<close>, \<open>config\<close>, \<open>interaction\<close> and \<open>delegateHandler\<close> are the fields
  of the class (lines 39-44). \<open>registry\<close> holds the listeners attached on the page,
  \<open>document\<close> the page, \<open>pending\<close> the promises of \<open>drop\<close> and \<open>abort\<close> whose \<open>then\<close>
  callback is still to run (each with the value it is fulfilled with), \<open>fresh\<close> the
  identity of the next intermediate listener.
\<close>

record ('i, 'd) state =
  container :: node
  config :: SortableConfig
  interaction :: "'i option"
  delegateHandler :: "nat option"
  registry :: "registration list"
  document :: 'd
  pending :: "SortableResult list"
  fresh :: nat
  trace :: "action list"

subsection \<open>The collaborators the controller calls for their effect\<close>

text \<open>
  Modelled from the spec: \<open>on\<close> and \<open>off\<close> of \<open>dom/events\<close> (not in \<open>src/\<close>), the "plain
  listener attach/detach". Attaching a listener that is already attached for the same
  target and type leaves one registration, as \<open>addEventListener\<close> does.
\<close>

definition addEventListener :: "registration \<Rightarrow> registration list \<Rightarrow> registration list" where
  "addEventListener r rs = (if r \<in> set rs then rs else rs @ [r])"

definition on :: "EventTarget \<Rightarrow> string \<Rightarrow> listener \<Rightarrow> ('i, 'd) state \<Rightarrow> ('i, 'd) state" where
  "on element type handler s =
     s\<lparr>registry := addEventListener (element, type, handler) (registry s),
       trace := trace s @ [AddListener element type handler]\<rparr>"

definition off :: "EventTarget \<Rightarrow> string \<Rightarrow> listener \<Rightarrow> ('i, 'd) state \<Rightarrow> ('i, 'd) state" where
  "off element type handler s =
     s\<lparr>registry := removeAll (element, type, handler) (registry s),
       trace := trace s @ [RemoveListener element type handler]\<rparr>"

text \<open>
  Modelled from the spec: \<open>delegate\<close> of \<open>dom/events\<close> (not in \<open>src/\<close>), "a
  delegated-listener registration returning an opaque detach token". Each call attaches a
  new intermediate listener and returns it.
\<close>

definition delegate ::
  "EventTarget \<Rightarrow> string \<Rightarrow> string \<Rightarrow> ('i, 'd) state \<Rightarrow> nat \<times> ('i, 'd) state" where
  "delegate element selector type s =
     (fresh s,
      s\<lparr>registry := registry s @ [(element, type, Intermediate (fresh s))],
        fresh := Suc (fresh s),
        trace := trace s @ [DelegateListener element selector type (fresh s)]\<rparr>)"

text \<open>\<open>emitter.emit(type, evt)\<close>: the emitter hands \<open>evt\<close> to the subscribers of \<open>type\<close>.\<close>

definition emit :: "string \<Rightarrow> jsvalue \<Rightarrow> ('i, 'd) state \<Rightarrow> ('i, 'd) state" where
  "emit type evt s = s\<lparr>trace := trace s @ [Emit type evt]\<rparr>"

text \<open>The events emitted so far, oldest first.\<close>

fun emitted_of :: "action list \<Rightarrow> (string \<times> jsvalue) list" where
  "emitted_of [] = []"
| "emitted_of (Emit type evt # as) = (type, evt) # emitted_of as"
| "emitted_of (_ # as) = emitted_of as"

definition emitted :: "('i, 'd) state \<Rightarrow> (string \<times> jsvalue) list" where
  "emitted s = emitted_of (trace s)"

subsection \<open>The methods of \<open>Sortable\<close>\<close>

text \<open>
  The constructor (lines 48-62). \<open>merge({handle: ""}, config)\<close> gives \<open>handle\<close> the default
  \<open>""\<close> when the caller's configuration has none. The page starts with the document
  \<open>d\<close>.
\<close>

definition new_Sortable :: "node \<Rightarrow> SortableConfig \<Rightarrow> 'd \<Rightarrow> ('i, 'd) state" where
  "new_Sortable c cfg d =
     \<lparr>container = c,
      config = cfg\<lparr>handle := Some (case handle cfg of None \<Rightarrow> [] | Some h \<Rightarrow> h)\<rparr>,
      interaction = None,
      delegateHandler = None,
      registry = [],
      document = d,
      pending = [],
      fresh = 0,
      trace = []\<rparr>"

text \<open>The template literal of line 77; an \<open>undefined\<close> handle prints as \<open>undefined\<close>.\<close>

definition delegate_selector :: "SortableConfig \<Rightarrow> string" where
  "delegate_selector cfg =
     items cfg @ '' '' @ (case handle cfg of None \<Rightarrow> ''undefined'' | Some h \<Rightarrow> h)"

text \<open>\<open>onInteractionStart\<close> (lines 87-116).\<close>

definition onInteractionStart ::
  "('i, 'd) env \<Rightarrow> MouseEvent \<Rightarrow> ('i, 'd) state \<Rightarrow> ('i, 'd) state" where
  "onInteractionStart e event s =
     (if interaction s \<noteq> None then s
      else case target event of
        None \<Rightarrow> s
      | Some eventTarget \<Rightarrow>
          let draggedItem =
                (if matches e (document s) eventTarget (items (config s)) then Some eventTarget
                 else closest e (document s) eventTarget (items (config s)));
              created = interaction_new e (container s) draggedItem (items (config s))
                          (screenX event) (screenY event);
              s1 = s\<lparr>interaction := Some created,
                     trace := trace s @ [Construct (container s) draggedItem (items (config s))
                                           (screenX event) (screenY event)]\<rparr>;
              (started, d) = interaction_start e created (document s1);
              s2 = s1\<lparr>interaction := Some started, document := d,
                      trace := trace s1 @ [CallStart]\<rparr>;
              s3 = on Body ''mousemove'' ListenerMove s2;
              s4 = on Body ''mouseup'' ListenerEnd s3;
              s5 = on Window ''mouseout'' ListenerMouseOut s4;
              s6 = on Window ''scroll'' ListenerScroll s5;
              s7 = emit ''start'' (JSArray [draggedItem]) s6
          in s7\<lparr>trace := trace s7 @ [PreventDefault]\<rparr>)"




text \<open>\<open>onDragMove\<close> (lines 122-130).\<close>

definition onDragMove ::
  "('i, 'd) env \<Rightarrow> MouseEvent \<Rightarrow> ('i, 'd) state \<Rightarrow> ('i, 'd) state" where
  "onDragMove e event s =
     (case interaction s of
        None \<Rightarrow> s
      | Some i \<Rightarrow>
          let (i', d) = interaction_onMove e (screenX event) (screenY event) i (document s)
          in s\<lparr>interaction := Some i', document := d,
               trace := trace s @ [CallOnMove (screenX event) (screenY event)]\<rparr>)"

text \<open>
  The local \<open>endAction\<close> of \<open>onDragEnd\<close> (lines 150-152): \<open>drop\<close> at the event's
  coordinates when there is an event, \<open>abort\<close> otherwise. \<open>endCall\<close> is the entry the call
  leaves in the trace.
\<close>

definition endAction ::
  "('i, 'd) env \<Rightarrow> MouseEvent option \<Rightarrow> 'i \<Rightarrow> 'd \<Rightarrow> SortableResult \<times> 'i \<times> 'd" where
  "endAction e event i d =
     (case event of
        Some ev \<Rightarrow> interaction_drop e (screenX ev) (screenY ev) i d
      | None \<Rightarrow> interaction_abort e i d)"

definition endCall :: "MouseEvent option \<Rightarrow> action" where
  "endCall event =
     (case event of
        Some ev \<Rightarrow> CallDrop (screenX ev) (screenY ev)
      | None \<Rightarrow> CallAbort)"

text \<open>
  \<open>onDragEnd\<close> (lines 136-180), up to the call of \<open>then\<close>: the listeners are detached, the
  interaction is told to drop or to abort, and the promise it returns is left pending.
  The parameter is optional in the source; \<open>None\<close> is the call without an event.
\<close>

definition onDragEnd ::
  "('i, 'd) env \<Rightarrow> MouseEvent option \<Rightarrow> ('i, 'd) state \<Rightarrow> ('i, 'd) state" where
  "onDragEnd e event s =
     (case interaction s of
        None \<Rightarrow> s
      | Some i \<Rightarrow>
          let s1 = off Body ''mousemove'' ListenerMove s;
              s2 = off Body ''mouseup'' ListenerEnd s1;
              s3 = off Window ''mouseout'' ListenerMouseOut s2;
              s4 = off Window ''scroll'' ListenerScroll s3;
              (result, i', d) = endAction e event i (document s4)
          in s4\<lparr>interaction := Some i', document := d,
                pending := pending s4 @ [result],
                trace := trace s4 @ [endCall event]\<rparr>)"

text \<open>
  The callback given to \<open>then\<close> (lines 156-178), called with the value the promise was
  fulfilled with.
\<close>

definition onDragEnd_then ::
  "('i, 'd) env \<Rightarrow> SortableResult \<Rightarrow> ('i, 'd) state \<Rightarrow> ('i, 'd) state" where
  "onDragEnd_then e result s =
     (let currentItems = find_dom e (document s) (items (config s)) (container s);
          s1 = s\<lparr>trace := trace s @ [QueryItems (items (config s)) (container s)]\<rparr>
      in case interaction s1 of
           None \<Rightarrow> s1
         | Some i \<Rightarrow>
             let orderHasChanged = interaction_orderHasChanged e i;
                 s2 = s1\<lparr>trace := trace s1 @ [ReadOrderHasChanged orderHasChanged]\<rparr>;
                 s3 = s2\<lparr>interaction := None, trace := trace s2 @ [ClearInteraction]\<rparr>;
                 s4 = emit ''end'' JSUndefined s3
             in if orderHasChanged
                then emit ''changed''
                       (JSChanged \<lparr>data_items = currentItems, data_result = result\<rparr>) s4
                else s4)"

text \<open>
  The \<open>k\<close>-th pending promise is fulfilled and its \<open>then\<close> callback runs. Promises may be
  fulfilled in any order; with no such promise nothing happens.
\<close>

definition settle :: "('i, 'd) env \<Rightarrow> nat \<Rightarrow> ('i, 'd) state \<Rightarrow> ('i, 'd) state" where
  "settle e k s =
     (if k < length (pending s)
      then let result = pending s ! k;
               s1 = s\<lparr>pending := take k (pending s) @ List.drop (Suc k) (pending s),
                      trace := trace s @ [Settled result]\<rparr>
           in onDragEnd_then e result s1
      else s)"

text \<open>\<open>onMouseOut\<close> (lines 186-193).\<close>

definition onMouseOut ::
  "('i, 'd) env \<Rightarrow> MouseEvent \<Rightarrow> ('i, 'd) state \<Rightarrow> ('i, 'd) state" where
  "onMouseOut e event s =
     (let html = findOne e (document s) ''html''
      in if relatedTarget event = html then onDragEnd e None s else s)"

text \<open>\<open>onScroll\<close> (lines 198-206).\<close>

definition onScroll :: "('i, 'd) env \<Rightarrow> ('i, 'd) state \<Rightarrow> ('i, 'd) state" where
  "onScroll e s =
     (case interaction s of
        None \<Rightarrow> s
      | Some i \<Rightarrow>
          let (i', d) = interaction_onScroll e i (document s)
          in s\<lparr>interaction := Some i', document := d, trace := trace s @ [CallOnScroll]\<rparr>)"

text \<open>\<open>destroy\<close> (lines 221-230).\<close>

definition destroy :: "('i, 'd) env \<Rightarrow> ('i, 'd) state \<Rightarrow> ('i, 'd) state" where
  "destroy e s =
     (let s1 = onDragEnd e None s
      in case delegateHandler s1 of
           None \<Rightarrow> s1
         | Some token \<Rightarrow>
             (off (Element (container s1)) ''mousedown'' (Intermediate token) s1)
               \<lparr>delegateHandler := None\<rparr>)"

text \<open>\<open>init\<close> (lines 68-81).\<close>

definition init :: "('i, 'd) env \<Rightarrow> ('i, 'd) state \<Rightarrow> ('i, 'd) state" where
  "init e s =
     (let s1 = (if delegateHandler s \<noteq> None then destroy e s else s);
          (token, s2) = delegate (Element (container s1)) (delegate_selector (config s1))
                          ''mousedown'' s1
      in s2\<lparr>delegateHandler := Some token\<rparr>)"

subsection \<open>Derived notions used in the statements\<close>

text \<open>
  The four registrations that \<open>onInteractionStart\<close> attaches (lines 109-112) and
  \<open>onDragEnd\<close> detaches (lines 144-147), and the four entries the detaching leaves in
  the trace.
\<close>

definition gesture_listeners :: "registration list" where
  "gesture_listeners =
     [(Body, ''mousemove'', ListenerMove), (Body, ''mouseup'', ListenerEnd),
      (Window, ''mouseout'', ListenerMouseOut), (Window, ''scroll'', ListenerScroll)]"

definition detached :: "action list" where
  "detached =
     [RemoveListener Body ''mousemove'' ListenerMove,
      RemoveListener Body ''mouseup'' ListenerEnd,
      RemoveListener Window ''mouseout'' ListenerMouseOut,
      RemoveListener Window ''scroll'' ListenerScroll]"

text \<open>The registry after the four calls of \<open>on\<close>.\<close>

definition attached :: "registration list \<Rightarrow> registration list" where
  "attached rs =
     addEventListener (Window, ''scroll'', ListenerScroll)
       (addEventListener (Window, ''mouseout'', ListenerMouseOut)
         (addEventListener (Body, ''mouseup'', ListenerEnd)
           (addEventListener (Body, ''mousemove'', ListenerMove) rs)))"

text \<open>The registrations that the four calls of \<open>off\<close> leave in place.\<close>

definition kept :: "registration list \<Rightarrow> registration list" where
  "kept rs = filter (\<lambda>r. r \<notin> set gesture_listeners) rs"

text \<open>The registration of the intermediate listener \<open>token\<close> on the container \<open>c\<close>.\<close>

definition token_registration :: "node \<Rightarrow> nat \<Rightarrow> registration" where
  "token_registration c token = (Element c, ''mousedown'', Intermediate token)"

definition delegated :: "node \<Rightarrow> nat option \<Rightarrow> registration list" where
  "delegated c h = (case h of None \<Rightarrow> [] | Some token \<Rightarrow> [token_registration c token])"

text \<open>The \<open>mousedown\<close> listeners on the element \<open>c\<close>.\<close>

definition pointerdown :: "node \<Rightarrow> registration list \<Rightarrow> registration list" where
  "pointerdown c rs = filter (\<lambda>(el, ty, l). el = Element c \<and> ty = ''mousedown'') rs"

text \<open>Where listeners are installed and for which event, whichever object listens.\<close>

definition installed :: "registration list \<Rightarrow> (EventTarget \<times> string) list" where
  "installed rs = map (\<lambda>(el, ty, l). (el, ty)) rs"

text \<open>
  The registry agrees with the fields: apart from the four gesture listeners, the
  listeners attached are the one that \<open>delegateHandler\<close> holds, if it holds one.
\<close>

definition wired :: "('i, 'd) state \<Rightarrow> bool" where
  "wired s = (kept (registry s) = delegated (container s) (delegateHandler s))"

text \<open>
  How many interactions the controller has constructed and how many times it has cleared
  its reference, read off the trace, and how many interactions it holds now.
\<close>

fun constructions :: "action list \<Rightarrow> nat" where
  "constructions [] = 0"
| "constructions (Construct c n sel x y # as) = Suc (constructions as)"
| "constructions (_ # as) = constructions as"

fun clearings :: "action list \<Rightarrow> nat" where
  "clearings [] = 0"
| "clearings (ClearInteraction # as) = Suc (clearings as)"
| "clearings (_ # as) = clearings as"

definition held :: "('i, 'd) state \<Rightarrow> nat" where
  "held s = (case interaction s of None \<Rightarrow> 0 | Some i \<Rightarrow> 1)"

definition single :: "('i, 'd) state \<Rightarrow> bool" where
  "single s = (constructions (trace s) = clearings (trace s) + held s)"

text \<open>
  The states a controller built on \<open>s0\<close> can reach: the public methods, the handlers it
  registers, and the fulfilment of a pending promise.
\<close>

inductive reachable :: "('i, 'd) env \<Rightarrow> ('i, 'd) state \<Rightarrow> ('i, 'd) state \<Rightarrow> bool"
  for e :: "('i, 'd) env" and s0 :: "('i, 'd) state" where
  constructed: "reachable e s0 s0"
| by_init: "reachable e s0 s \<Longrightarrow> reachable e s0 (init e s)"
| by_destroy: "reachable e s0 s \<Longrightarrow> reachable e s0 (destroy e s)"
| by_onInteractionStart: "reachable e s0 s \<Longrightarrow> reachable e s0 (onInteractionStart e event s)"
| by_onDragMove: "reachable e s0 s \<Longrightarrow> reachable e s0 (onDragMove e event s)"
| by_onDragEnd: "reachable e s0 s \<Longrightarrow> reachable e s0 (onDragEnd e (Some event) s)"
| by_onMouseOut: "reachable e s0 s \<Longrightarrow> reachable e s0 (onMouseOut e event s)"
| by_onScroll: "reachable e s0 s \<Longrightarrow> reachable e s0 (onScroll e s)"
| by_settle: "reachable e s0 s \<Longrightarrow> reachable e s0 (settle e k s)"

subsection \<open>Schedules\<close>

text \<open>
  What can happen to a controller, one event at a time: the handlers it registers, its
  public methods, and the fulfilment of the \<open>k\<close>-th pending promise. \<open>run\<close> lets a list
  of events happen in order.
\<close>

datatype event =
    Pickup MouseEvent
  | Move MouseEvent
  | Release MouseEvent
  | Leave MouseEvent
  | Scroll
  | Init
  | Destroy
  | Fulfil nat

fun step :: "('i, 'd) env \<Rightarrow> event \<Rightarrow> ('i, 'd) state \<Rightarrow> ('i, 'd) state" where
  "step e (Pickup ev) s = onInteractionStart e ev s"
| "step e (Move ev) s = onDragMove e ev s"
| "step e (Release ev) s = onDragEnd e (Some ev) s"
| "step e (Leave ev) s = onMouseOut e ev s"
| "step e Scroll s = onScroll e s"
| "step e Init s = init e s"
| "step e Destroy s = destroy e s"
| "step e (Fulfil k) s = settle e k s"

fun run :: "('i, 'd) env \<Rightarrow> event list \<Rightarrow> ('i, 'd) state \<Rightarrow> ('i, 'd) state" where
  "run e [] s = s"
| "run e (x # xs) s = run e xs (step e x s)"

fun is_pickup :: "event \<Rightarrow> bool" where
  "is_pickup (Pickup ev) = True"
| "is_pickup _ = False"

fun is_fulfil :: "event \<Rightarrow> bool" where
  "is_fulfil (Fulfil k) = True"
| "is_fulfil _ = False"

fun no_pickup :: "event list \<Rightarrow> bool" where
  "no_pickup [] = True"
| "no_pickup (x # xs) = (\<not> is_pickup x \<and> no_pickup xs)"

text \<open>
  The events that end a gesture: the release of the pointer, \<open>destroy\<close>, and the pointer
  leaving to the root element.
\<close>

fun ends_gesture :: "('i, 'd) env \<Rightarrow> ('i, 'd) state \<Rightarrow> event \<Rightarrow> bool" where
  "ends_gesture e s (Release ev) = True"
| "ends_gesture e s Destroy = True"
| "ends_gesture e s (Leave ev) = (relatedTarget ev = findOne e (document s) ''html'')"
| "ends_gesture e s _ = False"

text \<open>
  What the \<open>then\<close> callback leaves in the trace when it finds an interaction (lines
  159-177): the items queried, \<open>orderHasChanged\<close> read, the reference cleared, \<open>end\<close>
  emitted, and \<open>changed\<close> emitted if the order has changed.
\<close>

definition finalized :: "string \<Rightarrow> node \<Rightarrow> SortableResult \<Rightarrow> bool \<Rightarrow> node list \<Rightarrow> action list" where
  "finalized sel c r changed its =
     [Settled r, QueryItems sel c, ReadOrderHasChanged changed, ClearInteraction,
      Emit ''end'' JSUndefined] @
     (if changed then [Emit ''changed'' (JSChanged \<lparr>data_items = its, data_result = r\<rparr>)] else [])"

text \<open>
  Notions of the proofs. \<open>calm s s'\<close>: from \<open>s\<close> to \<open>s'\<close> nothing was emitted and no
  interaction was taken up or cleared. \<open>ending s s'\<close>: the gesture held in \<open>s\<close> is still
  held in \<open>s'\<close>, with a promise pending. \<open>ended s s'\<close>: since \<open>s\<close> one callback has
  finalised, and nothing else was emitted.
\<close>

definition calm :: "('i, 'd) state \<Rightarrow> ('i, 'd) state \<Rightarrow> bool" where
  "calm s s' =
     ((\<exists>ext. trace s' = trace s @ ext \<and> emitted_of ext = [])
      \<and> (interaction s' = None) = (interaction s = None)
      \<and> (pending s \<noteq> [] \<longrightarrow> pending s' \<noteq> [])
      \<and> config s' = config s \<and> container s' = container s)"

definition ending :: "('i, 'd) state \<Rightarrow> ('i, 'd) state \<Rightarrow> bool" where
  "ending s s' =
     (interaction s' \<noteq> None \<and> pending s' \<noteq> [] \<and> config s' = config s \<and> container s' = container s
      \<and> (\<exists>pre. trace s' = trace s @ pre \<and> emitted_of pre = []))"

definition ended :: "('i, 'd) state \<Rightarrow> ('i, 'd) state \<Rightarrow> bool" where
  "ended s s' =
     (interaction s' = None
      \<and> (\<exists>pre r changed its post.
            trace s' = trace s @ pre @ finalized (items (config s)) (container s) r changed its @ post
            \<and> emitted_of pre = [] \<and> emitted_of post = []))"

text \<open>The \<open>end\<close> events in a trace, counted.\<close>

fun ends :: "action list \<Rightarrow> nat" where
  "ends [] = 0"
| "ends (Emit type evt # as) = (if type = ''end'' then Suc (ends as) else ends as)"
| "ends (_ # as) = ends as"

definition tallied :: "('i, 'd) state \<Rightarrow> bool" where
  "tallied s = (ends (trace s) = clearings (trace s))"

subsection \<open>A page to run the controller on\<close>

text \<open>
  Modelled from the spec: \<open>SortableInteraction\<close> (\<open>ui/Sortable/SortableInteraction\<close>, not
  in \<open>src/\<close>) and the queries of \<open>dom/traverse\<close>, on a page whose container holds a column
  of items. \<open>start\<close> records the next sibling of the dragged item as its anchor, \<open>onMove\<close>
  moves the item and recomputes the anchor, \<open>drop\<close> moves once more and reports the item
  and its anchor, \<open>abort\<close> puts the item back before its first anchor, and
  \<open>orderHasChanged\<close> compares the two anchors. The spec leaves the geometry open: here
  the item under the pointer is the one whose index is \<open>screenY\<close>. This page is the
  concrete input of the examples below; no general statement depends on it.
\<close>

record page =
  root :: node
  parent :: "node \<Rightarrow> node option"
  rows :: "node list"

record drag =
  draggedItem :: "node option"
  draggedBefore :: "node option"
  currentBefore :: "node option"

fun nextSibling :: "node list \<Rightarrow> node \<Rightarrow> node option" where
  "nextSibling [] n = None"
| "nextSibling [x] n = None"
| "nextSibling (x # y # xs) n = (if x = n then Some y else nextSibling (y # xs) n)"

definition insertBefore :: "node list \<Rightarrow> node \<Rightarrow> node option \<Rightarrow> node list" where
  "insertBefore xs n anchor =
     (case anchor of
        None \<Rightarrow> xs @ [n]
      | Some a \<Rightarrow> takeWhile (\<lambda>x. x \<noteq> a) xs @ [n] @ dropWhile (\<lambda>x. x \<noteq> a) xs)"

definition rows_start :: "drag \<Rightarrow> page \<Rightarrow> drag \<times> page" where
  "rows_start i d =
     (case draggedItem i of
        None \<Rightarrow> (i, d)
      | Some n \<Rightarrow> (i\<lparr>draggedBefore := nextSibling (rows d) n,
                      currentBefore := nextSibling (rows d) n\<rparr>, d))"

definition rows_onMove :: "int \<Rightarrow> int \<Rightarrow> drag \<Rightarrow> page \<Rightarrow> drag \<times> page" where
  "rows_onMove x y i d =
     (case draggedItem i of
        None \<Rightarrow> (i, d)
      | Some n \<Rightarrow>
          let others = removeAll n (rows d);
              moved = take (nat y) others @ [n] @ List.drop (nat y) others
          in (i\<lparr>currentBefore := nextSibling moved n\<rparr>, d\<lparr>rows := moved\<rparr>))"

definition rows_drop :: "int \<Rightarrow> int \<Rightarrow> drag \<Rightarrow> page \<Rightarrow> SortableResult \<times> drag \<times> page" where
  "rows_drop x y i d =
     (let (i', d') = rows_onMove x y i d
      in (\<lparr>item = draggedItem i', before = currentBefore i'\<rparr>, i', d'))"

definition rows_abort :: "drag \<Rightarrow> page \<Rightarrow> SortableResult \<times> drag \<times> page" where
  "rows_abort i d =
     (case draggedItem i of
        None \<Rightarrow> (\<lparr>item = None, before = None\<rparr>, i, d)
      | Some n \<Rightarrow>
          (\<lparr>item = Some n, before = draggedBefore i\<rparr>,
           i\<lparr>currentBefore := draggedBefore i\<rparr>,
           d\<lparr>rows := insertBefore (removeAll n (rows d)) n (draggedBefore i)\<rparr>))"

definition rows_env :: "(drag, page) env" where
  "rows_env =
     \<lparr>matches = (\<lambda>d n sel. n \<in> set (rows d)),
      closest = (\<lambda>d n sel. case parent d n of
                   None \<Rightarrow> None
                 | Some p \<Rightarrow> if p \<in> set (rows d) then Some p else None),
      find_dom = (\<lambda>d sel ctx. rows d),
      findOne = (\<lambda>d sel. if sel = ''html'' then Some (root d) else None),
      interaction_new = (\<lambda>c n sel x y.
         \<lparr>draggedItem = n, draggedBefore = None, currentBefore = None\<rparr>),
      interaction_start = rows_start,
      interaction_onMove = rows_onMove,
      interaction_onScroll = (\<lambda>i d. (i, d)),
      interaction_drop = rows_drop,
      interaction_abort = rows_abort,
      interaction_orderHasChanged = (\<lambda>i. draggedBefore i \<noteq> currentBefore i)\<rparr>"

text \<open>
  The page of the spec's scenarios: the root element is node 0, the container node 1, the
  items A, B and C are nodes 10, 11 and 12, and node 20 is a handle inside A. Node 30 is
  in no item.
\<close>

definition abc :: page where
  "abc = \<lparr>root = 0, parent = (\<lambda>n. if n = 20 then Some 10 else None), rows = [10, 11, 12]\<rparr>"

definition idle :: "(drag, page) state" where
  "idle = init rows_env
            (new_Sortable 1 \<lparr>items = ''.item'', enabled = None, handle = None\<rparr> abc)"

definition mousedown_on :: "node \<Rightarrow> MouseEvent" where
  "mousedown_on n = \<lparr>target = Some n, relatedTarget = None, screenX = 0, screenY = 0\<rparr>"

definition mouse_at :: "int \<Rightarrow> MouseEvent" where
  "mouse_at y = \<lparr>target = None, relatedTarget = None, screenX = 0, screenY = y\<rparr>"

definition mouseout_to :: "node option \<Rightarrow> MouseEvent" where
  "mouseout_to n = \<lparr>target = None, relatedTarget = n, screenX = 0, screenY = 0\<rparr>"

definition dragging :: "(drag, page) state" where
  "dragging = onInteractionStart rows_env (mousedown_on 10) idle"

text \<open>The item A has been dragged to the row of C.\<close>

definition moved :: "(drag, page) state" where
  "moved = onDragMove rows_env (mouse_at 2) dragging"

definition picked :: drag where
  "picked = \<lparr>draggedItem = Some 10, draggedBefore = Some 11, currentBefore = Some 11\<rparr>"



text \<open>
  A gesture ended twice: A is picked up and released over the row of C, and \<open>destroy\<close>
  is called before the promise of the drop is fulfilled; then the promise of the abort is
  fulfilled, and then that of the drop.
\<close>

definition released :: "(drag, page) state" where
  "released = onDragEnd rows_env (Some (mouse_at 2)) dragging"

definition twice_ended :: "(drag, page) state" where
  "twice_ended = run rows_env [Fulfil 1, Fulfil 0] (destroy rows_env released)"

text \<open>
  A late promise: A is picked up and released on its own row; \<open>init\<close> is called again
  before the promise of the drop is fulfilled, which aborts the gesture and leaves a
  second promise pending; the promise of the drop is fulfilled (\<open>first_ended\<close>); B is
  picked up (\<open>regrabbed\<close>) and released over the row of A (\<open>redropped\<close>). The promise of
  the first gesture's abort is still pending.
\<close>

definition first_ended :: "(drag, page) state" where
  "first_ended =
     run rows_env [Pickup (mousedown_on 10), Release (mouse_at 0), Init, Fulfil 0] idle"

definition regrabbed :: "(drag, page) state" where
  "regrabbed =
     run rows_env
       [Pickup (mousedown_on 10), Release (mouse_at 0), Init, Fulfil 0, Pickup (mousedown_on 11)]
       idle"

definition redropped :: "(drag, page) state" where
  "redropped = onDragEnd rows_env (Some (mouse_at 0)) regrabbed"

section \<open>Properties\<close>

subsection \<open>Supporting lemmas\<close>

lemma emitted_of_append: "emitted_of (xs @ ys) = emitted_of xs @ emitted_of ys"
  by (induction xs rule: emitted_of.induct) simp_all

lemma removeAll4:
  "removeAll d (removeAll c (removeAll b (removeAll a xs))) = filter (\<lambda>r. r \<notin> set [a, b, c, d]) xs"
  by (induction xs) auto

lemma onDragEnd_active:
  assumes "interaction s = Some i" "endAction e event i (document s) = (r, i', d')"
  shows "onDragEnd e event s =
    s\<lparr>interaction := Some i', registry := kept (registry s),
      document := d', pending := pending s @ [r],
      trace := trace s @ detached @ [endCall event]\<rparr>"
  using assms
  by (simp add: onDragEnd_def off_def Let_def removeAll4 gesture_listeners_def detached_def kept_def)

lemma onDragEnd_then_active:
  assumes "interaction s = Some i"
  shows "onDragEnd_then e r s =
     s\<lparr>interaction := None,
       trace := trace s @ [QueryItems (items (config s)) (container s),
          ReadOrderHasChanged (interaction_orderHasChanged e i), ClearInteraction,
          Emit ''end'' JSUndefined] @
          (if interaction_orderHasChanged e i
           then [Emit ''changed'' (JSChanged \<lparr>data_items = find_dom e (document s) (items (config s)) (container s), data_result = r\<rparr>)]
           else [])\<rparr>"
  using assms by (simp add: onDragEnd_then_def emit_def Let_def)

lemma onDragEnd_then_idle:
  assumes "interaction s = None"
  shows "onDragEnd_then e r s = s\<lparr>trace := trace s @ [QueryItems (items (config s)) (container s)]\<rparr>"
  using assms by (simp add: onDragEnd_then_def)

lemma settle_last:
  "settle e (length ps) (s\<lparr>pending := ps @ [r]\<rparr>) =
     onDragEnd_then e r (s\<lparr>pending := ps, trace := trace s @ [Settled r]\<rparr>)"
  by (simp add: settle_def Let_def)

lemma delegated_simps [simp]:
  "delegated c None = []" "delegated c (Some t) = [token_registration c t]"
  by (simp_all add: delegated_def)

lemma token_not_gesture: "token_registration c t \<notin> set gesture_listeners"
  by (simp add: token_registration_def gesture_listeners_def)

lemma onInteractionStart_accepted:
  assumes "interaction s = None" "target event = Some t"
  shows "onInteractionStart e event s =
    (let draggedItem = (if matches e (document s) t (items (config s)) then Some t
                        else closest e (document s) t (items (config s)));
         created = interaction_new e (container s) draggedItem (items (config s)) (screenX event) (screenY event);
         (started, d) = interaction_start e created (document s)
     in s\<lparr>interaction := Some started, document := d,
          registry := attached (registry s),
          trace := trace s @ [Construct (container s) draggedItem (items (config s)) (screenX event) (screenY event),
             CallStart, AddListener Body ''mousemove'' ListenerMove, AddListener Body ''mouseup'' ListenerEnd,
             AddListener Window ''mouseout'' ListenerMouseOut, AddListener Window ''scroll'' ListenerScroll,
             Emit ''start'' (JSArray [draggedItem]), PreventDefault]\<rparr>)"
  using assms
  by (simp add: onInteractionStart_def Let_def on_def emit_def attached_def split: prod.splits)

lemma kept_removeAll: "kept (removeAll x xs) = removeAll x (kept xs)"
  by (induction xs) (auto simp: kept_def)

lemma kept_idem: "kept (kept xs) = kept xs"
  by (simp add: kept_def)

lemma wired_new_Sortable: "wired (new_Sortable c cfg d)"
  by (simp add: wired_def kept_def new_Sortable_def)

lemma kept_addEventListener:
  "r \<in> set gesture_listeners \<Longrightarrow> kept (addEventListener r rs) = kept rs"
  by (simp add: kept_def addEventListener_def)

lemma kept_on4: "kept (attached rs) = kept rs"
  by (simp add: attached_def kept_addEventListener gesture_listeners_def)

lemma wired_onInteractionStart: "wired s \<Longrightarrow> wired (onInteractionStart e event s)"
proof (cases "interaction s = None \<and> target event \<noteq> None")
  case False
  then show "wired s \<Longrightarrow> wired (onInteractionStart e event s)"
    by (auto simp: onInteractionStart_def)
next
  case True
  then obtain t where t: "interaction s = None" "target event = Some t" by auto
  assume w: "wired s"
  then show ?thesis
    unfolding onInteractionStart_accepted[OF t]
    by (simp add: Let_def wired_def kept_on4 split: prod.splits option.splits)
qed

lemma wired_onDragMove: "wired s \<Longrightarrow> wired (onDragMove e event s)"
  by (simp add: onDragMove_def Let_def wired_def split: option.splits prod.splits)

lemma wired_onScroll: "wired s \<Longrightarrow> wired (onScroll e s)"
  by (simp add: onScroll_def Let_def wired_def split: option.splits prod.splits)

lemma onDragEnd_idle: "interaction s = None \<Longrightarrow> onDragEnd e event s = s"
  by (simp add: onDragEnd_def)

lemma wired_onDragEnd: "wired s \<Longrightarrow> wired (onDragEnd e event s)"
proof (cases "interaction s")
  case None
  then show "wired s \<Longrightarrow> ?thesis" by (simp add: onDragEnd_idle)
next
  case (Some i)
  obtain r i' d' where ea: "endAction e event i (document s) = (r, i', d')"
    by (cases "endAction e event i (document s)") auto
  have "wired (onDragEnd e event s) = wired s"
    unfolding onDragEnd_active[OF Some ea] by (simp add: wired_def kept_idem)
  then show "wired s \<Longrightarrow> ?thesis" by simp
qed

lemma wired_onDragEnd_then: "wired s \<Longrightarrow> wired (onDragEnd_then e r s)"
  by (simp add: onDragEnd_then_def Let_def emit_def wired_def split: option.splits)

lemma wired_settle: "wired s \<Longrightarrow> wired (settle e k s)"
proof -
  assume w: "wired s"
  have "wired (s\<lparr>pending := ps, trace := tr\<rparr>)" for ps tr
    using w by (simp add: wired_def)
  then show ?thesis
    by (simp add: settle_def Let_def w wired_onDragEnd_then)
qed

lemma wired_onMouseOut: "wired s \<Longrightarrow> wired (onMouseOut e event s)"
  by (simp add: onMouseOut_def Let_def wired_onDragEnd)

lemma onDragEnd_fields:
  "container (onDragEnd e event s) = container s" "config (onDragEnd e event s) = config s"
  "delegateHandler (onDragEnd e event s) = delegateHandler s" "fresh (onDragEnd e event s) = fresh s"
  by (simp_all add: onDragEnd_def off_def Let_def split: option.splits prod.splits)

lemma destroy_eq:
  "destroy e s =
     (case delegateHandler s of
        None \<Rightarrow> onDragEnd e None s
      | Some token \<Rightarrow>
          (onDragEnd e None s)
            \<lparr>registry := removeAll (token_registration (container s) token) (registry (onDragEnd e None s)),
             trace := trace (onDragEnd e None s) @ [RemoveListener (Element (container s)) ''mousedown'' (Intermediate token)],
             delegateHandler := None\<rparr>)"
  by (simp add: destroy_def Let_def onDragEnd_fields off_def token_registration_def split: option.splits)

lemma kept_destroy: "wired s \<Longrightarrow> kept (registry (destroy e s)) = []"
proof -
  assume "wired s"
  then have w: "wired (onDragEnd e None s)" by (rule wired_onDragEnd)
  show ?thesis
  proof (cases "delegateHandler s")
    case None
    then show ?thesis using w by (simp add: destroy_eq wired_def onDragEnd_fields)
  next
    case (Some t)
    have "kept (registry (onDragEnd e None s)) = [token_registration (container s) t]"
      using w Some by (simp add: wired_def onDragEnd_fields)
    then show ?thesis using Some by (simp add: destroy_eq kept_removeAll)
  qed
qed

lemma destroy_fields:
  "container (destroy e s) = container s" "config (destroy e s) = config s"
  "delegateHandler (destroy e s) = None" "fresh (destroy e s) = fresh s"
  by (simp_all add: destroy_eq onDragEnd_fields split: option.splits)

lemma wired_destroy: "wired s \<Longrightarrow> wired (destroy e s)"
  using kept_destroy[of s e] by (simp add: wired_def destroy_fields)

lemma init_eq:
  "init e s =
    (let s1 = (if delegateHandler s \<noteq> None then destroy e s else s)
     in s1\<lparr>registry := registry s1 @ [token_registration (container s) (fresh s)],
           fresh := Suc (fresh s),
           trace := trace s1 @ [DelegateListener (Element (container s)) (delegate_selector (config s)) ''mousedown'' (fresh s)],
           delegateHandler := Some (fresh s)\<rparr>)"
  by (simp add: init_def Let_def delegate_def destroy_fields token_registration_def)

lemma kept_init: "wired s \<Longrightarrow> kept (registry (init e s)) = [token_registration (container s) (fresh s)]"
proof -
  assume w: "wired s"
  have "kept (registry (if delegateHandler s \<noteq> None then destroy e s else s)) = []"
    using w kept_destroy[OF w, of e] by (auto simp: wired_def)
  then show ?thesis
    by (simp add: init_eq Let_def kept_def token_not_gesture)
qed

lemma init_fields:
  "container (init e s) = container s" "config (init e s) = config s"
  "delegateHandler (init e s) = Some (fresh s)" "fresh (init e s) = Suc (fresh s)"
  by (simp_all add: init_eq Let_def destroy_fields)

lemma wired_init: "wired s \<Longrightarrow> wired (init e s)"
  using kept_init[of s e] by (simp add: wired_def init_fields token_registration_def)

lemma emitted_upd:
  "emitted (s\<lparr>trace := tr\<rparr>) = emitted_of tr"
  by (simp add: emitted_def)

lemma settle_onDragEnd:
  assumes "interaction s = Some i" "endAction e event i (document s) = (r, i', d')"
  shows "settle e (length (pending s)) (onDragEnd e event s) =
     s\<lparr>interaction := None, registry := kept (registry s), document := d',
       trace := trace s @ detached @ [endCall event] @
         [Settled r, QueryItems (items (config s)) (container s),
          ReadOrderHasChanged (interaction_orderHasChanged e i'), ClearInteraction,
          Emit ''end'' JSUndefined] @
          (if interaction_orderHasChanged e i'
           then [Emit ''changed'' (JSChanged \<lparr>data_items = find_dom e d' (items (config s)) (container s), data_result = r\<rparr>)]
           else [])\<rparr>"
proof -
  let ?s1 = "s\<lparr>interaction := Some i', registry := kept (registry s), document := d',
                trace := trace s @ detached @ [endCall event]\<rparr>"
  have "onDragEnd e event s = ?s1\<lparr>pending := pending s @ [r]\<rparr>"
    by (simp add: onDragEnd_active[OF assms])
  then have "settle e (length (pending s)) (onDragEnd e event s) =
        onDragEnd_then e r (?s1\<lparr>pending := pending s, trace := trace ?s1 @ [Settled r]\<rparr>)"
    by (simp only: settle_last)
  also have "\<dots> = s\<lparr>interaction := None, registry := kept (registry s), document := d',
       trace := trace s @ detached @ [endCall event] @
         [Settled r, QueryItems (items (config s)) (container s),
          ReadOrderHasChanged (interaction_orderHasChanged e i'), ClearInteraction,
          Emit ''end'' JSUndefined] @
          (if interaction_orderHasChanged e i'
           then [Emit ''changed'' (JSChanged \<lparr>data_items = find_dom e d' (items (config s)) (container s), data_result = r\<rparr>)]
           else [])\<rparr>"
    by (simp add: onDragEnd_then_active[where i = i'])
  finally show ?thesis .
qed

lemma emitted_settle_onDragEnd:
  assumes "interaction s = Some i" "endAction e event i (document s) = (r, i', d')"
  shows "emitted (settle e (length (pending s)) (onDragEnd e event s)) =
     emitted s @ (''end'', JSUndefined) #
       (if interaction_orderHasChanged e i'
        then [(''changed'', JSChanged \<lparr>data_items = find_dom e d' (items (config s)) (container s), data_result = r\<rparr>)]
        else [])"
  unfolding settle_onDragEnd[OF assms]
  by (simp add: emitted_upd emitted_of_append detached_def endCall_def emitted_def split: option.splits)

lemma settle_upd_other:
  "settle e k (s\<lparr>registry := rs, trace := trace s @ tr, delegateHandler := h\<rparr>) =
   (settle e k s)\<lparr>registry := rs, trace := trace s @ tr @ drop (length (trace s)) (trace (settle e k s)), delegateHandler := h\<rparr>"
  by (simp add: settle_def Let_def onDragEnd_then_def emit_def split: option.splits)

lemma emitted_settle_destroy:
  "emitted (settle e k (destroy e s)) = emitted (settle e k (onDragEnd e None s))"
proof -
  have tr: "trace s' @ drop (length (trace s')) (trace (settle e k s')) = trace (settle e k s')" for s' :: "('a, 'b) state"
    by (simp add: settle_def Let_def onDragEnd_then_def emit_def split: option.splits)
  have em: "emitted_of (trace s' @ RemoveListener a b c # drop (length (trace s')) (trace (settle e k s'))) = emitted_of (trace (settle e k s'))" for s' :: "('a, 'b) state" and a b c
  proof -
    have "emitted_of (trace s' @ RemoveListener a b c # D) = emitted_of (trace s' @ D)" for D
      by (simp add: emitted_of_append)
    then show ?thesis by (simp only: tr)
  qed
  show ?thesis
    by (cases "delegateHandler s") (simp_all add: destroy_eq settle_upd_other emitted_def em)
qed

lemma kept_empty_removeAll:
  "kept rs = [] \<Longrightarrow> removeAll (token_registration c t) rs = rs"
proof -
  assume "kept rs = []"
  then have "token_registration c t \<notin> set rs"
    using token_not_gesture[of c t] by (auto simp: kept_def filter_empty_conv)
  then show ?thesis by simp
qed

lemma kept_token: "kept [token_registration c t] = [token_registration c t]"
  by (simp add: kept_def token_not_gesture)

lemma pointerdown_kept: "pointerdown c (kept rs) = pointerdown c rs"
  by (induction rs) (auto simp: pointerdown_def kept_def gesture_listeners_def)

lemma pointerdown_token: "pointerdown c [token_registration c t] = [token_registration c t]"
  by (simp add: pointerdown_def token_registration_def)

lemma interaction_onDragEnd: "(interaction (onDragEnd e event s) = None) = (interaction s = None)"
  by (simp add: onDragEnd_def off_def Let_def split: option.splits prod.splits)

lemma interaction_destroy: "(interaction (destroy e s) = None) = (interaction s = None)"
  by (simp add: destroy_eq interaction_onDragEnd split: option.splits)

lemma registry_onDragEnd:
  "registry (onDragEnd e event s) = (if interaction s = None then registry s else kept (registry s))"
proof (cases "interaction s")
  case None
  then show ?thesis by (simp add: onDragEnd_idle)
next
  case (Some i)
  obtain r i' d' where ea: "endAction e event i (document s) = (r, i', d')"
    by (cases "endAction e event i (document s)") auto
  show ?thesis by (simp add: onDragEnd_active[OF Some ea] Some)
qed

lemma registry_destroy:
  "registry (destroy e s) =
     (case delegateHandler s of
        None \<Rightarrow> registry (onDragEnd e None s)
      | Some t \<Rightarrow> removeAll (token_registration (container s) t) (registry (onDragEnd e None s)))"
  by (simp add: destroy_eq split: option.splits)

lemma registry_destroy_active:
  assumes "wired s" "interaction s \<noteq> None"
  shows "registry (destroy e s) = []"
  using assms by (cases "delegateHandler s") (auto simp: registry_destroy registry_onDragEnd wired_def)

lemma registry_init:
  "registry (init e s) =
     registry (if delegateHandler s \<noteq> None then destroy e s else s) @ [token_registration (container s) (fresh s)]"
  by (simp add: init_eq Let_def)

lemma init_funpow:
  "wired s \<Longrightarrow> wired ((init e ^^ n) s) \<and> container ((init e ^^ n) s) = container s
     \<and> fresh ((init e ^^ n) s) = fresh s + n"
  by (induction n) (simp_all add: wired_init init_fields)

lemma wired_reachable: "reachable e (new_Sortable c cfg d) s \<Longrightarrow> wired s"
  by (induction rule: reachable.induct)
     (simp_all add: wired_new_Sortable wired_init wired_destroy wired_onInteractionStart wired_onDragMove
        wired_onDragEnd wired_onMouseOut wired_onScroll wired_settle)

lemma trace_onDragEnd: "\<exists>mid. trace (onDragEnd e event s) = trace s @ mid"
proof (cases "interaction s")
  case None
  then show ?thesis by (simp add: onDragEnd_idle)
next
  case (Some i)
  obtain r i' d' where ea: "endAction e event i (document s) = (r, i', d')"
    by (cases "endAction e event i (document s)") auto
  show ?thesis by (simp add: onDragEnd_active[OF Some ea])
qed

lemma trace_init_installed:
  assumes "delegateHandler s = Some token"
  shows "\<exists>mid. trace (init e s) = trace s @ mid @
           [RemoveListener (Element (container s)) ''mousedown'' (Intermediate token),
            DelegateListener (Element (container s)) (delegate_selector (config s))
              ''mousedown'' (fresh s)]"
proof -
  obtain mid where "trace (onDragEnd e None s) = trace s @ mid"
    using trace_onDragEnd by blast
  then have "trace (init e s) = trace s @ mid @
           [RemoveListener (Element (container s)) ''mousedown'' (Intermediate token),
            DelegateListener (Element (container s)) (delegate_selector (config s))
              ''mousedown'' (fresh s)]"
    using assms by (simp add: init_eq destroy_eq Let_def)
  then show ?thesis by blast
qed

text \<open>The controller never holds more interactions than it has constructed and not cleared.\<close>

lemma constructions_append: "constructions (xs @ ys) = constructions xs + constructions ys"
  by (induction xs rule: constructions.induct) simp_all

lemma clearings_append: "clearings (xs @ ys) = clearings xs + clearings ys"
  by (induction xs rule: clearings.induct) simp_all

lemmas count_simps = constructions_append clearings_append single_def held_def

lemma single_new_Sortable: "single (new_Sortable c cfg d)"
  by (simp add: single_def held_def new_Sortable_def)

lemma single_onInteractionStart: "single s \<Longrightarrow> single (onInteractionStart e event s)"
proof (cases "interaction s = None \<and> target event \<noteq> None")
  case False
  then show "single s \<Longrightarrow> ?thesis"
    by (auto simp: onInteractionStart_def)
next
  case True
  then obtain t where t: "interaction s = None" "target event = Some t" by auto
  assume "single s"
  then show ?thesis
    unfolding onInteractionStart_accepted[OF t]
    by (simp add: count_simps t Let_def split: prod.splits)
qed

lemma single_onDragMove: "single s \<Longrightarrow> single (onDragMove e event s)"
  by (simp add: onDragMove_def count_simps Let_def split: option.splits prod.splits)

lemma single_onScroll: "single s \<Longrightarrow> single (onScroll e s)"
  by (simp add: onScroll_def count_simps Let_def split: option.splits prod.splits)

lemma single_onDragEnd: "single s \<Longrightarrow> single (onDragEnd e event s)"
proof (cases "interaction s")
  case None
  then show "single s \<Longrightarrow> ?thesis" by (simp add: onDragEnd_idle)
next
  case (Some i)
  obtain r i' d' where ea: "endAction e event i (document s) = (r, i', d')"
    by (cases "endAction e event i (document s)") auto
  assume "single s"
  then show ?thesis
    unfolding onDragEnd_active[OF Some ea]
    by (cases event) (simp_all add: count_simps Some detached_def endCall_def)
qed

lemma single_onDragEnd_then: "single s \<Longrightarrow> single (onDragEnd_then e r s)"
  by (simp add: onDragEnd_then_def emit_def count_simps Let_def split: option.splits)

lemma single_settle: "single s \<Longrightarrow> single (settle e k s)"
proof -
  assume s: "single s"
  have "single (s\<lparr>pending := ps, trace := trace s @ [Settled r]\<rparr>)" for ps r
    using s by (simp add: count_simps)
  then show ?thesis
    by (simp add: settle_def Let_def s single_onDragEnd_then)
qed

lemma single_onMouseOut: "single s \<Longrightarrow> single (onMouseOut e event s)"
  by (simp add: onMouseOut_def Let_def single_onDragEnd)

lemma single_destroy: "single s \<Longrightarrow> single (destroy e s)"
proof -
  assume "single s"
  then have "single (onDragEnd e None s)" by (rule single_onDragEnd)
  then show ?thesis
    by (simp add: destroy_eq count_simps split: option.splits)
qed

lemma single_init: "single s \<Longrightarrow> single (init e s)"
proof -
  assume s: "single s"
  then have "single (if delegateHandler s \<noteq> None then destroy e s else s)"
    by (simp add: single_destroy)
  then show ?thesis
    unfolding init_eq Let_def by (simp add: count_simps)
qed

lemma single_reachable: "reachable e (new_Sortable c cfg d) s \<Longrightarrow> single s"
  by (induction rule: reachable.induct)
     (simp_all add: single_new_Sortable single_init single_destroy single_onInteractionStart
        single_onDragMove single_onDragEnd single_onMouseOut single_onScroll single_settle)

text \<open>The states of the example page, evaluated.\<close>

lemmas page_defs =
  rows_env_def rows_start_def rows_onMove_def rows_drop_def rows_abort_def
  insertBefore_def abc_def mousedown_on_def mouse_at_def mouseout_to_def picked_def

lemma idle_eq:
  "idle =
     \<lparr>container = 1,
      config = \<lparr>items = ''.item'', enabled = None, handle = Some []\<rparr>,
      interaction = None,
      delegateHandler = Some 0,
      registry = [(Element 1, ''mousedown'', Intermediate 0)],
      document = abc,
      pending = [],
      fresh = 1,
      trace = [DelegateListener (Element 1) ''.item '' ''mousedown'' 0]\<rparr>"
  by (simp add: idle_def init_def new_Sortable_def delegate_def delegate_selector_def)

lemma dragging_eq:
  "dragging =
     \<lparr>container = 1,
      config = \<lparr>items = ''.item'', enabled = None, handle = Some []\<rparr>,
      interaction = Some picked,
      delegateHandler = Some 0,
      registry = (Element 1, ''mousedown'', Intermediate 0) # gesture_listeners,
      document = abc,
      pending = [],
      fresh = 1,
      trace = [DelegateListener (Element 1) ''.item '' ''mousedown'' 0,
               Construct 1 (Some 10) ''.item'' 0 0, CallStart,
               AddListener Body ''mousemove'' ListenerMove,
               AddListener Body ''mouseup'' ListenerEnd,
               AddListener Window ''mouseout'' ListenerMouseOut,
               AddListener Window ''scroll'' ListenerScroll,
               Emit ''start'' (JSArray [Some 10]), PreventDefault]\<rparr>"
  by (simp add: dragging_def idle_eq onInteractionStart_def on_def addEventListener_def emit_def
        gesture_listeners_def page_defs Let_def)


lemma moved_eq:
  "moved = dragging\<lparr>interaction := Some (picked\<lparr>currentBefore := None\<rparr>),
                    document := abc\<lparr>rows := [11, 12, 10]\<rparr>,
                    trace := trace dragging @ [CallOnMove 0 2]\<rparr>"
  by (simp add: moved_def dragging_eq onDragMove_def page_defs Let_def)

lemma rows_env_simps:
  "find_dom rows_env d sel c = rows d"
  "findOne rows_env d ''html'' = Some (root d)"
  "interaction_orderHasChanged rows_env i = (draggedBefore i \<noteq> currentBefore i)"
  by (simp_all add: rows_env_def)

lemma page_simps:
  "root abc = 0" "rows abc = [10, 11, 12]"
  "draggedBefore picked = Some 11" "currentBefore picked = Some 11"
  "relatedTarget (mouseout_to n) = n"
  by (simp_all add: abc_def picked_def mouseout_to_def)

lemma drop_picked:
  "endAction rows_env (Some (mouse_at 2)) picked abc =
     (\<lparr>item = Some 10, before = None\<rparr>, picked\<lparr>currentBefore := None\<rparr>, abc\<lparr>rows := [11, 12, 10]\<rparr>)"
  by (simp add: endAction_def page_defs Let_def)

lemma abort_picked:
  "endAction rows_env None picked abc = (\<lparr>item = Some 10, before = Some 11\<rparr>, picked, abc)"
  by (simp add: endAction_def page_defs Let_def)

lemma abort_moved:
  "interaction_abort rows_env (picked\<lparr>currentBefore := None\<rparr>) (abc\<lparr>rows := [11, 12, 10]\<rparr>) =
     (\<lparr>item = Some 10, before = Some 11\<rparr>, picked, abc)"
  by (simp add: page_defs Let_def)

text \<open>
  Events that are not fulfilments emit nothing; the first fulfilment that finds an
  interaction finalises, and later ones find none.
\<close>

lemma calm_refl: "calm s s"
  by (simp add: calm_def)

lemma calm_trans: "calm s s' \<Longrightarrow> calm s' s'' \<Longrightarrow> calm s s''"
  by (auto simp: calm_def emitted_of_append)

lemma calm_upd:
  "emitted_of ext = [] \<Longrightarrow>
   calm s (s\<lparr>registry := rs, trace := trace s @ ext, delegateHandler := h\<rparr>)"
  by (simp add: calm_def)

lemma calm_onDragMove: "calm s (onDragMove e ev s)"
  by (simp add: calm_def onDragMove_def Let_def split: option.splits prod.splits)

lemma calm_onScroll: "calm s (onScroll e s)"
  by (simp add: calm_def onScroll_def Let_def split: option.splits prod.splits)

lemma calm_onDragEnd: "calm s (onDragEnd e event s)"
proof (cases "interaction s")
  case None
  then show ?thesis by (simp add: onDragEnd_idle calm_refl)
next
  case (Some i)
  obtain r i' d' where ea: "endAction e event i (document s) = (r, i', d')"
    by (cases "endAction e event i (document s)") auto
  show ?thesis
    unfolding onDragEnd_active[OF Some ea]
    by (cases event) (simp_all add: calm_def Some detached_def endCall_def)
qed

lemma calm_onMouseOut: "calm s (onMouseOut e ev s)"
  by (simp add: onMouseOut_def Let_def calm_onDragEnd calm_refl)

lemma calm_destroy: "calm s (destroy e s)"
proof -
  have "calm (onDragEnd e None s) (destroy e s)"
    by (cases "delegateHandler s") (simp_all add: destroy_eq calm_refl calm_upd)
  with calm_onDragEnd[of s e None] show ?thesis by (rule calm_trans)
qed

lemma calm_init: "calm s (init e s)"
proof -
  let ?s1 = "if delegateHandler s \<noteq> None then destroy e s else s"
  have 1: "calm s ?s1" by (simp add: calm_destroy calm_refl)
  have "calm ?s1 (init e s)"
    unfolding init_eq Let_def by (simp add: calm_def)
  with 1 show ?thesis by (rule calm_trans)
qed

lemma calm_step: "\<not> is_pickup x \<Longrightarrow> \<not> is_fulfil x \<Longrightarrow> calm s (step e x s)"
  by (cases x) (simp_all add: calm_onDragMove calm_onDragEnd calm_onMouseOut calm_onScroll
      calm_init calm_destroy)

lemma settle_invalid: "\<not> k < length (pending s) \<Longrightarrow> settle e k s = s"
  by (simp add: settle_def)

lemma settle_held:
  assumes "k < length (pending s)" "interaction s = Some j"
  shows "settle e k s =
     s\<lparr>pending := take k (pending s) @ List.drop (Suc k) (pending s),
       interaction := None,
       trace := trace s @ finalized (items (config s)) (container s) (pending s ! k)
                  (interaction_orderHasChanged e j)
                  (find_dom e (document s) (items (config s)) (container s))\<rparr>"
  using assms by (simp add: settle_def Let_def onDragEnd_then_def emit_def finalized_def)

lemma settle_idle:
  assumes "k < length (pending s)" "interaction s = None"
  shows "settle e k s =
     s\<lparr>pending := take k (pending s) @ List.drop (Suc k) (pending s),
       trace := trace s @ [Settled (pending s ! k), QueryItems (items (config s)) (container s)]\<rparr>"
  using assms by (simp add: settle_def Let_def onDragEnd_then_def)

lemma ending_calm: "ending s s' \<Longrightarrow> calm s' s'' \<Longrightarrow> ending s s''"
  by (auto simp: ending_def calm_def emitted_of_append)

lemma ended_ext:
  assumes "ended s s'" and "trace s'' = trace s' @ ext" and "emitted_of ext = []"
    and "interaction s'' = None"
  shows "ended s s''"
proof -
  from assms(1) obtain pre r ch its post where
    t: "trace s' = trace s @ pre @ finalized (items (config s)) (container s) r ch its @ post"
    and q: "emitted_of pre = []" "emitted_of post = []"
    by (auto simp: ended_def)
  have "trace s'' = trace s @ pre @ finalized (items (config s)) (container s) r ch its @ (post @ ext)"
    by (simp add: assms(2) t)
  moreover have "emitted_of (post @ ext) = []"
    by (simp add: emitted_of_append q assms(3))
  ultimately show ?thesis
    unfolding ended_def using q(1) assms(4) by blast
qed

lemma ended_calm: "ended s s' \<Longrightarrow> calm s' s'' \<Longrightarrow> ended s s''"
proof -
  assume a: "ended s s'" and c: "calm s' s''"
  from a have i: "interaction s' = None" by (simp add: ended_def)
  from c i obtain ext where "trace s'' = trace s' @ ext" "emitted_of ext = []" "interaction s'' = None"
    by (auto simp: calm_def)
  with a show ?thesis by (rule ended_ext)
qed

lemma ending_fulfil: "ending s s' \<Longrightarrow> ending s (settle e k s') \<or> ended s (settle e k s')"
proof (cases "k < length (pending s')")
  case False
  then show "ending s s' \<Longrightarrow> ?thesis" by (simp add: settle_invalid)
next
  case True
  assume a: "ending s s'"
  then obtain j pre where j: "interaction s' = Some j"
    and t: "trace s' = trace s @ pre" "emitted_of pre = []"
    and c: "config s' = config s" "container s' = container s"
    by (auto simp: ending_def)
  have "trace (settle e k s') = trace s @ pre @
      finalized (items (config s)) (container s) (pending s' ! k) (interaction_orderHasChanged e j)
        (find_dom e (document s') (items (config s)) (container s)) @ []"
    by (simp add: settle_held[OF True j] t c)
  moreover have "interaction (settle e k s') = None"
    by (simp add: settle_held[OF True j])
  ultimately have "ended s (settle e k s')"
    unfolding ended_def using t(2) by (metis emitted_of.simps(1))
  then show ?thesis ..
qed

lemma ended_fulfil: "ended s s' \<Longrightarrow> ended s (settle e k s')"
proof (cases "k < length (pending s')")
  case False
  then show "ended s s' \<Longrightarrow> ?thesis" by (simp add: settle_invalid)
next
  case True
  assume a: "ended s s'"
  then have i: "interaction s' = None" by (simp add: ended_def)
  show ?thesis
    by (rule ended_ext[OF a, where ext = "[Settled (pending s' ! k), QueryItems (items (config s')) (container s')]"])
       (simp_all add: settle_idle[OF True i] i)
qed

lemma ending_step:
  "ending s s' \<Longrightarrow> \<not> is_pickup x \<Longrightarrow> ending s (step e x s') \<or> ended s (step e x s')"
proof (cases "is_fulfil x")
  case True
  then obtain k where "x = Fulfil k" by (cases x) auto
  then show "ending s s' \<Longrightarrow> ?thesis" by (simp add: ending_fulfil)
next
  case False
  assume "ending s s'" "\<not> is_pickup x"
  with False show ?thesis by (blast intro: ending_calm calm_step)
qed

lemma ended_step: "ended s s' \<Longrightarrow> \<not> is_pickup x \<Longrightarrow> ended s (step e x s')"
proof (cases "is_fulfil x")
  case True
  then obtain k where "x = Fulfil k" by (cases x) auto
  then show "ended s s' \<Longrightarrow> ?thesis" by (simp add: ended_fulfil)
next
  case False
  assume "ended s s'" "\<not> is_pickup x"
  with False show ?thesis by (blast intro: ended_calm calm_step)
qed

lemma ended_run: "ended s s' \<Longrightarrow> no_pickup xs \<Longrightarrow> ended s (run e xs s')"
  by (induction xs arbitrary: s') (simp_all add: ended_step)

lemma ending_run:
  "ending s s' \<Longrightarrow> no_pickup xs \<Longrightarrow> pending (run e xs s') = [] \<Longrightarrow> ended s (run e xs s')"
proof (induction xs arbitrary: s')
  case Nil
  then show ?case by (simp add: ending_def)
next
  case (Cons x xs)
  then have np: "\<not> is_pickup x" "no_pickup xs" by simp_all
  from ending_step[OF Cons.prems(1) np(1), of e]
  show ?case
  proof
    assume "ending s (step e x s')"
    then show ?thesis using Cons.IH np(2) Cons.prems(3) by simp
  next
    assume "ended s (step e x s')"
    then show ?thesis using ended_run np(2) by simp
  qed
qed

lemma pending_onDragEnd_active: "interaction s \<noteq> None \<Longrightarrow> pending (onDragEnd e event s) \<noteq> []"
  by (auto simp: onDragEnd_def off_def Let_def split: prod.splits)

lemma ending_trigger:
  assumes "interaction s = Some i" "ends_gesture e s x"
  shows "ending s (step e x s)"
proof -
  have c: "calm s (step e x s)"
    using assms(2) by (cases x) (simp_all add: calm_onDragEnd calm_destroy calm_onMouseOut)
  have "pending (onDragEnd e ev s) \<noteq> []" for ev
    using assms(1) by (simp add: pending_onDragEnd_active)
  moreover have "pending (destroy e s) = pending (onDragEnd e None s)"
    by (simp add: destroy_eq split: option.splits)
  ultimately have "pending (step e x s) \<noteq> []"
    using assms(2) by (cases x) (simp_all add: onMouseOut_def)
  with c assms(1) show ?thesis
    by (auto simp: ending_def calm_def)
qed

lemma gesture_ends_once:
  assumes "interaction s = Some i" "ends_gesture e s x" "no_pickup xs"
    and "pending (run e (x # xs) s) = []"
  shows "\<exists>pre r changed its post.
           trace (run e (x # xs) s) =
             trace s @ pre @ finalized (items (config s)) (container s) r changed its @ post
           \<and> emitted_of pre = [] \<and> emitted_of post = []
           \<and> emitted (run e (x # xs) s) =
               emitted s @ (''end'', JSUndefined) #
                 (if changed then [(''changed'', JSChanged \<lparr>data_items = its, data_result = r\<rparr>)]
                  else [])"
proof -
  have "ended s (run e xs (step e x s))"
    using ending_run[OF ending_trigger[OF assms(1,2)] assms(3)] assms(4) by simp
  then obtain pre r changed its post where
    t: "trace (run e (x # xs) s) =
          trace s @ pre @ finalized (items (config s)) (container s) r changed its @ post"
    and q: "emitted_of pre = []" "emitted_of post = []"
    by (auto simp: ended_def)
  have "emitted (run e (x # xs) s) =
          emitted s @ (''end'', JSUndefined) #
            (if changed then [(''changed'', JSChanged \<lparr>data_items = its, data_result = r\<rparr>)]
             else [])"
    unfolding emitted_def t by (simp add: emitted_of_append q finalized_def)
  with t q show ?thesis by blast
qed

lemma ends_append: "ends (xs @ ys) = ends xs + ends ys"
  by (induction xs rule: ends.induct) simp_all

lemmas tally_simps = ends_append clearings_append tallied_def

lemma tallied_new_Sortable: "tallied (new_Sortable c cfg d)"
  by (simp add: tallied_def new_Sortable_def)

lemma tallied_onInteractionStart: "tallied s \<Longrightarrow> tallied (onInteractionStart e event s)"
proof (cases "interaction s = None \<and> target event \<noteq> None")
  case False
  then show "tallied s \<Longrightarrow> ?thesis"
    by (auto simp: onInteractionStart_def)
next
  case True
  then obtain t where t: "interaction s = None" "target event = Some t" by auto
  assume "tallied s"
  then show ?thesis
    unfolding onInteractionStart_accepted[OF t]
    by (simp add: tally_simps Let_def split: prod.splits)
qed

lemma tallied_calm: "tallied s \<Longrightarrow> trace s' = trace s @ ext \<Longrightarrow> ends ext = clearings ext \<Longrightarrow> tallied s'"
  by (simp add: tally_simps)

lemma tallied_onDragMove: "tallied s \<Longrightarrow> tallied (onDragMove e event s)"
  by (simp add: onDragMove_def tally_simps Let_def split: option.splits prod.splits)

lemma tallied_onScroll: "tallied s \<Longrightarrow> tallied (onScroll e s)"
  by (simp add: onScroll_def tally_simps Let_def split: option.splits prod.splits)

lemma tallied_onDragEnd: "tallied s \<Longrightarrow> tallied (onDragEnd e event s)"
proof (cases "interaction s")
  case None
  then show "tallied s \<Longrightarrow> ?thesis" by (simp add: onDragEnd_idle)
next
  case (Some i)
  obtain r i' d' where ea: "endAction e event i (document s) = (r, i', d')"
    by (cases "endAction e event i (document s)") auto
  assume "tallied s"
  then show ?thesis
    unfolding onDragEnd_active[OF Some ea]
    by (cases event) (simp_all add: tally_simps detached_def endCall_def)
qed

lemma tallied_settle: "tallied s \<Longrightarrow> tallied (settle e k s)"
proof (cases "k < length (pending s)")
  case False
  then show "tallied s \<Longrightarrow> ?thesis" by (simp add: settle_invalid)
next
  case True
  assume s: "tallied s"
  show ?thesis
  proof (cases "interaction s")
    case None
    with s show ?thesis by (simp add: settle_idle[OF True] tally_simps)
  next
    case (Some j)
    with s show ?thesis by (simp add: settle_held[OF True] tally_simps finalized_def)
  qed
qed

lemma tallied_onMouseOut: "tallied s \<Longrightarrow> tallied (onMouseOut e event s)"
  by (simp add: onMouseOut_def Let_def tallied_onDragEnd)

lemma tallied_destroy: "tallied s \<Longrightarrow> tallied (destroy e s)"
proof -
  assume "tallied s"
  then have "tallied (onDragEnd e None s)" by (rule tallied_onDragEnd)
  then show ?thesis
    by (simp add: destroy_eq tally_simps split: option.splits)
qed

lemma tallied_init: "tallied s \<Longrightarrow> tallied (init e s)"
proof -
  assume s: "tallied s"
  then have "tallied (if delegateHandler s \<noteq> None then destroy e s else s)"
    by (simp add: tallied_destroy)
  then show ?thesis
    unfolding init_eq Let_def by (simp add: tally_simps)
qed

lemma tallied_reachable: "reachable e (new_Sortable c cfg d) s \<Longrightarrow> tallied s"
  by (induction rule: reachable.induct)
     (simp_all add: tallied_new_Sortable tallied_init tallied_destroy tallied_onInteractionStart
        tallied_onDragMove tallied_onDragEnd tallied_onMouseOut tallied_onScroll tallied_settle)

lemma fulfilments_idle:
  "interaction s = None \<Longrightarrow> emitted (run e (map Fulfil ks) s) = emitted s"
proof (induction ks arbitrary: s)
  case Nil
  then show ?case by simp
next
  case (Cons k ks)
  show ?case
  proof (cases "k < length (pending s)")
    case False
    then show ?thesis using Cons by (simp add: settle_invalid)
  next
    case True
    have "interaction (settle e k s) = None" "emitted (settle e k s) = emitted s"
      by (simp_all add: settle_idle[OF True Cons.prems] emitted_def emitted_of_append Cons.prems)
    then show ?thesis using Cons.IH[of "settle e k s"] by simp
  qed
qed

lemma fulfilments_end_once:
  assumes "interaction s = Some j" and "pending (run e (map Fulfil ks) s) = []"
    and "pending s \<noteq> []"
  shows "\<exists>r \<in> set (pending s).
           emitted (run e (map Fulfil ks) s) =
             emitted s @ (''end'', JSUndefined) #
               (if interaction_orderHasChanged e j
                then [(''changed'', JSChanged \<lparr>data_items = find_dom e (document s) (items (config s)) (container s),
                                               data_result = r\<rparr>)]
                else [])"
  using assms(2)
proof (induction ks)
  case Nil
  then show ?case using assms(3) by simp
next
  case (Cons k ks)
  show ?case
  proof (cases "k < length (pending s)")
    case False
    then show ?thesis using Cons by (simp add: settle_invalid)
  next
    case True
    have i: "interaction (settle e k s) = None"
      by (simp add: settle_held[OF True assms(1)])
    have "emitted (settle e k s) =
             emitted s @ (''end'', JSUndefined) #
               (if interaction_orderHasChanged e j
                then [(''changed'', JSChanged \<lparr>data_items = find_dom e (document s) (items (config s)) (container s),
                                               data_result = pending s ! k\<rparr>)]
                else [])"
      by (simp add: settle_held[OF True assms(1)] emitted_def emitted_of_append finalized_def)
    moreover have "pending s ! k \<in> set (pending s)"
      using True by simp
    ultimately show ?thesis
      using fulfilments_idle[OF i, of e ks] by auto
  qed
qed

text \<open>
  The end of a gesture when the promise of that end is the one fulfilled next: the order of
  the steps, and what \<open>changed\<close> carries.
\<close>

lemma gesture_end_sequence:
  assumes "interaction s = Some i"
  shows "let (result, i', d) = endAction e event i (document s);
             changed = interaction_orderHasChanged e i';
             s1 = onDragEnd e event s;
             s2 = settle e (length (pending s)) s1
         in trace s1 = trace s @ detached @ [endCall event]
          \<and> set (registry s1) \<inter> set gesture_listeners = {}
          \<and> emitted s1 = emitted s
          \<and> interaction s1 = Some i'
          \<and> (\<forall>pickup. onInteractionStart e pickup s1 = s1)
          \<and> trace s2 = trace s1 @
               [Settled result, QueryItems (items (config s)) (container s),
                ReadOrderHasChanged changed, ClearInteraction, Emit ''end'' JSUndefined] @
               (if changed
                then [Emit ''changed'' (JSChanged \<lparr>data_items = find_dom e d (items (config s)) (container s),
                                                    data_result = result\<rparr>)]
                else [])
          \<and> interaction s2 = None"
proof -
  obtain r i' d' where ea: "endAction e event i (document s) = (r, i', d')"
    by (cases "endAction e event i (document s)") auto
  have s1: "interaction (onDragEnd e event s) = Some i'"
    "trace (onDragEnd e event s) = trace s @ detached @ [endCall event]"
    "registry (onDragEnd e event s) = kept (registry s)"
    by (simp_all add: onDragEnd_active[OF assms ea])
  have em: "emitted (onDragEnd e event s) = emitted s"
    by (simp add: emitted_def s1 emitted_of_append detached_def endCall_def split: option.splits)
  have start: "onInteractionStart e down (onDragEnd e event s) = onDragEnd e event s" for down
    by (simp add: onInteractionStart_def s1)
  show ?thesis
    unfolding ea Let_def prod.case settle_onDragEnd[OF assms ea]
    by (simp add: s1 em start) (auto simp: kept_def)
qed

lemma changed_payload:
  assumes "interaction s = Some i"
    and "interaction_drop e (screenX release) (screenY release) i (document s) = (result, i', d)"
    and "interaction_orderHasChanged e i'"
  shows "emitted (settle e (length (pending s)) (onDragEnd e (Some release) s)) =
         emitted s @ [(''end'', JSUndefined),
                      (''changed'', JSChanged \<lparr>data_items = find_dom e d (items (config s)) (container s),
                                              data_result = result\<rparr>)]"
proof -
  have ea: "endAction e (Some release) i (document s) = (result, i', d)"
    using assms(2) by (simp add: endAction_def)
  show ?thesis
    using emitted_settle_onDragEnd[OF assms(1) ea] assms(3) by simp
qed

text \<open>The states of the schedules, evaluated.\<close>

lemmas controller_defs =
  init_def delegate_def delegate_selector_def destroy_def onDragEnd_def
  endAction_def endCall_def onInteractionStart_def on_def addEventListener_def off_def
  emit_def settle_def onDragEnd_then_def onMouseOut_def onScroll_def onDragMove_def

lemma released_eq:
  "released =
     dragging\<lparr>interaction := Some (picked\<lparr>currentBefore := None\<rparr>),
              registry := [(Element 1, ''mousedown'', Intermediate 0)],
              document := abc\<lparr>rows := [11, 12, 10]\<rparr>,
              pending := [\<lparr>item = Some 10, before = None\<rparr>],
              trace := trace dragging @ detached @ [CallDrop 0 2]\<rparr>"
  by (simp add: released_def dragging_eq controller_defs page_defs gesture_listeners_def
        detached_def Let_def)

lemma destroy_released_eq:
  "destroy rows_env released =
     dragging\<lparr>interaction := Some picked,
              delegateHandler := None,
              registry := [],
              pending := [\<lparr>item = Some 10, before = None\<rparr>, \<lparr>item = Some 10, before = Some 11\<rparr>],
              trace := trace dragging @ detached @ [CallDrop 0 2] @ detached @ [CallAbort] @
                 [RemoveListener (Element 1) ''mousedown'' (Intermediate 0)]\<rparr>"
  by (simp add: released_eq dragging_eq controller_defs page_defs gesture_listeners_def
        detached_def Let_def)

lemma twice_ended_eq:
  "twice_ended =
     dragging\<lparr>interaction := None,
              delegateHandler := None,
              registry := [],
              pending := [],
              trace := trace dragging @ detached @ [CallDrop 0 2] @ detached @ [CallAbort] @
                 [RemoveListener (Element 1) ''mousedown'' (Intermediate 0),
                  Settled \<lparr>item = Some 10, before = Some 11\<rparr>, QueryItems ''.item'' 1,
                  ReadOrderHasChanged False, ClearInteraction, Emit ''end'' JSUndefined,
                  Settled \<lparr>item = Some 10, before = None\<rparr>, QueryItems ''.item'' 1]\<rparr>"
  by (simp add: twice_ended_def destroy_released_eq)
     (simp add: dragging_eq settle_def onDragEnd_then_def emit_def rows_env_simps page_simps
        detached_def Let_def)

lemma first_ended_eq:
  "first_ended =
     \<lparr>container = 1,
      config = \<lparr>items = ''.item'', enabled = None, handle = Some []\<rparr>,
      interaction = None,
      delegateHandler = Some 1,
      registry = [(Element 1, ''mousedown'', Intermediate 1)],
      document = abc,
      pending = [\<lparr>item = Some 10, before = Some 11\<rparr>],
      fresh = 2,
      trace = trace dragging @ detached @ [CallDrop 0 0] @ detached @ [CallAbort] @
        [RemoveListener (Element 1) ''mousedown'' (Intermediate 0),
         DelegateListener (Element 1) ''.item '' ''mousedown'' 1,
         Settled \<lparr>item = Some 10, before = Some 11\<rparr>, QueryItems ''.item'' 1,
         ReadOrderHasChanged False, ClearInteraction, Emit ''end'' JSUndefined]\<rparr>"
  by (simp add: first_ended_def dragging_def[symmetric])
     (simp add: dragging_eq controller_defs page_defs gesture_listeners_def detached_def Let_def)

lemma regrabbed_eq:
  "regrabbed =
     first_ended\<lparr>interaction := Some \<lparr>draggedItem = Some 11, draggedBefore = Some 12,
                                       currentBefore = Some 12\<rparr>,
                 registry := (Element 1, ''mousedown'', Intermediate 1) # gesture_listeners,
                 trace := trace first_ended @
                   [Construct 1 (Some 11) ''.item'' 0 0, CallStart,
                    AddListener Body ''mousemove'' ListenerMove,
                    AddListener Body ''mouseup'' ListenerEnd,
                    AddListener Window ''mouseout'' ListenerMouseOut,
                    AddListener Window ''scroll'' ListenerScroll,
                    Emit ''start'' (JSArray [Some 11]), PreventDefault]\<rparr>"
proof -
  have "regrabbed = onInteractionStart rows_env (mousedown_on 11) first_ended"
    by (simp add: regrabbed_def first_ended_def)
  then show ?thesis
    by (simp add: first_ended_eq onInteractionStart_def on_def addEventListener_def emit_def
          gesture_listeners_def page_defs Let_def)
qed

lemma released_wired: "wired released"
  by (simp add: released_eq dragging_eq wired_def kept_def gesture_listeners_def token_registration_def)

subsection \<open>The claims\<close>

text \<open>
  Claim C1. A pointer-down that arrives while the controller holds an interaction returns
  at once (line 89): the state is the same afterwards, so no second interaction is
  constructed, no listener is attached, no \<open>start\<close> is emitted, and the interaction held
  is unchanged. So in every state the controller reaches from its construction, the
  interactions constructed and not yet cleared are the one it holds, or none.
\<close>

theorem onInteractionStart_ignored_while_dragging:
  "(interaction s = Some i \<longrightarrow> onInteractionStart e event s = s)
 \<and> (reachable e (new_Sortable c cfg d) s \<longrightarrow>
      constructions (trace s) = clearings (trace s) + (case interaction s of None \<Rightarrow> 0 | Some held_one \<Rightarrow> 1))"
  using single_reachable[of e c cfg d s]
  by (simp add: onInteractionStart_def single_def held_def)

theorem onInteractionStart_ignored_while_dragging_witness:
  "interaction dragging = Some picked
   \<and> onInteractionStart rows_env (mousedown_on 11) dragging = dragging
   \<and> reachable rows_env (new_Sortable 1 \<lparr>items = ''.item'', enabled = None, handle = None\<rparr> abc) dragging
   \<and> constructions (trace dragging) = 1 \<and> clearings (trace dragging) = 0"
proof -
  have h: "interaction dragging = Some picked"
    by (simp add: dragging_eq)
  have r: "reachable rows_env (new_Sortable 1 \<lparr>items = ''.item'', enabled = None, handle = None\<rparr> abc) dragging"
    unfolding dragging_def idle_def
    by (intro reachable.by_onInteractionStart reachable.by_init reachable.constructed)
  have c: "clearings (trace dragging) = 0"
    by (simp add: dragging_eq)
  show ?thesis
    using h r c onInteractionStart_ignored_while_dragging[of dragging picked rows_env "mousedown_on 11" 1
        "\<lparr>items = ''.item'', enabled = None, handle = None\<rparr>" abc]
    by simp
qed

text \<open>
  Claim C2. Let a gesture be held and let it end, by the release of the pointer, by
  \<open>destroy\<close> or by the pointer leaving to the root element. Whatever happens next short
  of a pickup (further calls of \<open>onDragEnd\<close>, \<open>destroy\<close> or \<open>init\<close>, fulfilments in any
  order), once no promise is pending the trace since the end holds one finalisation: \<open>end\<close>
  is emitted exactly once, \<open>changed\<close> at most once, right after \<open>end\<close> in the same
  callback, and only if \<open>orderHasChanged\<close> was read as true; nothing else is emitted.
  And in every state the controller reaches, as many \<open>end\<close> events have been emitted as
  interactions were constructed and are no longer held.
\<close>

theorem end_emitted_once:
  "(interaction s = Some i \<and> ends_gesture e s x \<and> no_pickup xs
      \<and> pending (run e (x # xs) s) = [] \<longrightarrow>
      (\<exists>pre r changed its post.
         trace (run e (x # xs) s) =
           trace s @ pre @ finalized (items (config s)) (container s) r changed its @ post
         \<and> emitted_of pre = [] \<and> emitted_of post = []
         \<and> emitted (run e (x # xs) s) =
             emitted s @ (''end'', JSUndefined) #
               (if changed then [(''changed'', JSChanged \<lparr>data_items = its, data_result = r\<rparr>)]
                else [])))
 \<and> (reachable e (new_Sortable c cfg d) s' \<longrightarrow>
      ends (trace s') = clearings (trace s')
      \<and> constructions (trace s') =
          clearings (trace s') + (case interaction s' of None \<Rightarrow> 0 | Some held_one \<Rightarrow> 1))"
  using gesture_ends_once[of s i e x xs] tallied_reachable[of e c cfg d s']
    single_reachable[of e c cfg d s']
  by (simp add: tallied_def single_def held_def)

theorem end_emitted_once_witness:
  "interaction dragging = Some picked
   \<and> ends_gesture rows_env dragging (Release (mouse_at 2))
   \<and> no_pickup [Destroy, Fulfil 1, Fulfil 0]
   \<and> pending (run rows_env [Release (mouse_at 2), Destroy, Fulfil 1, Fulfil 0] dragging) = []
   \<and> emitted (run rows_env [Release (mouse_at 2), Destroy, Fulfil 1, Fulfil 0] dragging) =
       [(''start'', JSArray [Some 10]), (''end'', JSUndefined)]
   \<and> reachable rows_env (new_Sortable 1 \<lparr>items = ''.item'', enabled = None, handle = None\<rparr> abc)
        twice_ended
   \<and> ends (trace twice_ended) = 1 \<and> clearings (trace twice_ended) = 1
   \<and> constructions (trace twice_ended) = 1 \<and> interaction twice_ended = None"
proof -
  have r: "run rows_env [Release (mouse_at 2), Destroy, Fulfil 1, Fulfil 0] dragging = twice_ended"
    by (simp add: twice_ended_def released_def)
  have h: "interaction dragging = Some picked" "ends_gesture rows_env dragging (Release (mouse_at 2))"
    "no_pickup [Destroy, Fulfil 1, Fulfil 0]"
    by (simp_all add: dragging_eq)
  have p: "pending twice_ended = []" "interaction twice_ended = None"
    "emitted twice_ended = [(''start'', JSArray [Some 10]), (''end'', JSUndefined)]"
    "ends (trace twice_ended) = 1" "clearings (trace twice_ended) = 1"
    by (simp_all add: twice_ended_eq dragging_eq emitted_def detached_def)
  have re: "reachable rows_env (new_Sortable 1 \<lparr>items = ''.item'', enabled = None, handle = None\<rparr> abc)
        twice_ended"
    unfolding twice_ended_def released_def dragging_def idle_def run.simps step.simps
    by (intro reachable.intros)
  have q: "pending (run rows_env [Release (mouse_at 2), Destroy, Fulfil 1, Fulfil 0] dragging) = []"
    "emitted (run rows_env [Release (mouse_at 2), Destroy, Fulfil 1, Fulfil 0] dragging) =
       [(''start'', JSArray [Some 10]), (''end'', JSUndefined)]"
    unfolding r by (fact p)+
  show ?thesis
    using h p q re
      end_emitted_once[of dragging picked rows_env "Release (mouse_at 2)"
        "[Destroy, Fulfil 1, Fulfil 0]" 1
        "\<lparr>items = ''.item'', enabled = None, handle = None\<rparr>" abc twice_ended]
    by simp
qed

text \<open>
  Claim C3, as amended. When a pickup is accepted, the controller emits \<open>start\<close> once,
  with an array of one element, the dragged item (the event target when it matches the
  items selector, its closest matching ancestor otherwise), and then calls
  \<open>preventDefault\<close> on the event, as its last action.
\<close>

theorem start_payload_is_array:
  assumes "interaction s = None" and "target event = Some t"
  shows "let draggedItem = (if matches e (document s) t (items (config s)) then Some t
                            else closest e (document s) t (items (config s)));
             s' = onInteractionStart e event s
         in emitted s' = emitted s @ [(''start'', JSArray [draggedItem])]
          \<and> trace s' = trace s @
               [Construct (container s) draggedItem (items (config s)) (screenX event) (screenY event),
                CallStart,
                AddListener Body ''mousemove'' ListenerMove,
                AddListener Body ''mouseup'' ListenerEnd,
                AddListener Window ''mouseout'' ListenerMouseOut,
                AddListener Window ''scroll'' ListenerScroll,
                Emit ''start'' (JSArray [draggedItem]), PreventDefault]"
  unfolding onInteractionStart_accepted[OF assms]
  by (simp add: Let_def emitted_def emitted_of_append split: prod.splits)

theorem start_payload_is_array_witness:
  "interaction idle = None \<and> target (mousedown_on 20) = Some 20
   \<and> emitted (onInteractionStart rows_env (mousedown_on 20) idle) = [(''start'', JSArray [Some 10])]
   \<and> trace (onInteractionStart rows_env (mousedown_on 20) idle) =
       trace idle @
       [Construct 1 (Some 10) ''.item'' 0 0, CallStart,
        AddListener Body ''mousemove'' ListenerMove,
        AddListener Body ''mouseup'' ListenerEnd,
        AddListener Window ''mouseout'' ListenerMouseOut,
        AddListener Window ''scroll'' ListenerScroll,
        Emit ''start'' (JSArray [Some 10]), PreventDefault]"
proof -
  have h: "interaction idle = None" "target (mousedown_on 20) = Some 20"
    by (simp_all add: idle_eq mousedown_on_def)
  show ?thesis
    using h start_payload_is_array[OF h, of rows_env]
    by (simp add: idle_eq emitted_def page_defs Let_def)
qed

text \<open>
  Claim C3, as stated, fails: a pickup on item A emits \<open>start\<close> with the array that holds
  A, which is not A itself.
\<close>

theorem start_payload_not_the_item:
  "interaction idle = None \<and> target (mousedown_on 10) = Some 10
   \<and> matches rows_env (document idle) 10 (items (config idle))
   \<and> emitted (onInteractionStart rows_env (mousedown_on 10) idle) = [(''start'', JSArray [Some 10])]
   \<and> emitted (onInteractionStart rows_env (mousedown_on 10) idle) \<noteq> [(''start'', JSElement (Some 10))]"
  by (simp add: dragging_def[symmetric]) (simp add: dragging_eq idle_eq emitted_def page_defs)

text \<open>
  Claim C4, at the schedule of the late promise. The callback of the first gesture's abort
  runs while B is being dragged. It finds an interaction, the one of the second gesture,
  clears it and emits \<open>end\<close>: between the construction of that interaction and its end
  the trace has no listener removed and no call of \<open>drop\<close> or \<open>abort\<close>, and the four
  listeners are still attached afterwards.
\<close>

theorem late_promise_ends_new_gesture:
  "interaction regrabbed =
     Some \<lparr>draggedItem = Some 11, draggedBefore = Some 12, currentBefore = Some 12\<rparr>
   \<and> pending regrabbed = [\<lparr>item = Some 10, before = Some 11\<rparr>]
   \<and> interaction (settle rows_env 0 regrabbed) = None
   \<and> registry (settle rows_env 0 regrabbed) =
       (Element 1, ''mousedown'', Intermediate 1) # gesture_listeners
   \<and> trace (settle rows_env 0 regrabbed) =
       trace first_ended @
       [Construct 1 (Some 11) ''.item'' 0 0, CallStart,
        AddListener Body ''mousemove'' ListenerMove,
        AddListener Body ''mouseup'' ListenerEnd,
        AddListener Window ''mouseout'' ListenerMouseOut,
        AddListener Window ''scroll'' ListenerScroll,
        Emit ''start'' (JSArray [Some 11]), PreventDefault,
        Settled \<lparr>item = Some 10, before = Some 11\<rparr>, QueryItems ''.item'' 1,
        ReadOrderHasChanged False, ClearInteraction, Emit ''end'' JSUndefined]"
  by (simp add: regrabbed_eq first_ended_eq settle_def onDragEnd_then_def emit_def
        rows_env_simps Let_def)

text \<open>
  Claim C5, at the schedule of the late promise. B is released over the row of A, so the
  order changes and the drop produces \<open>{item: B, before: A}\<close>. The promise of the first
  gesture's abort is fulfilled first: the one \<open>changed\<close> of the gesture carries that
  promise's value, \<open>{item: A, before: B}\<close>, and the promise of the drop emits nothing.
\<close>

theorem late_promise_changed_payload:
  "pending redropped =
     [\<lparr>item = Some 10, before = Some 11\<rparr>, \<lparr>item = Some 11, before = Some 10\<rparr>]
   \<and> fst (interaction_drop rows_env 0 0
            \<lparr>draggedItem = Some 11, draggedBefore = Some 12, currentBefore = Some 12\<rparr>
            (document regrabbed)) =
       \<lparr>item = Some 11, before = Some 10\<rparr>
   \<and> emitted (run rows_env [Fulfil 0, Fulfil 0] redropped) =
       emitted regrabbed @
       [(''end'', JSUndefined),
        (''changed'', JSChanged \<lparr>data_items = [11, 10, 12],
                                 data_result = \<lparr>item = Some 10, before = Some 11\<rparr>\<rparr>)]
   \<and> pending (run rows_env [Fulfil 0, Fulfil 0] redropped) = []"
proof -
  have d: "redropped =
     regrabbed\<lparr>interaction := Some \<lparr>draggedItem = Some 11, draggedBefore = Some 12,
                                     currentBefore = Some 10\<rparr>,
               registry := [(Element 1, ''mousedown'', Intermediate 1)],
               document := abc\<lparr>rows := [11, 10, 12]\<rparr>,
               pending := [\<lparr>item = Some 10, before = Some 11\<rparr>, \<lparr>item = Some 11, before = Some 10\<rparr>],
               trace := trace regrabbed @ detached @ [CallDrop 0 0]\<rparr>"
    by (simp add: redropped_def regrabbed_eq first_ended_eq controller_defs page_defs
          gesture_listeners_def detached_def Let_def)
  have dr: "fst (interaction_drop rows_env 0 0
            \<lparr>draggedItem = Some 11, draggedBefore = Some 12, currentBefore = Some 12\<rparr>
            (document regrabbed)) = \<lparr>item = Some 11, before = Some 10\<rparr>"
    by (simp add: regrabbed_eq first_ended_eq page_defs Let_def)
  show ?thesis
    using dr
    by (simp add: d regrabbed_eq first_ended_eq settle_def onDragEnd_then_def emit_def emitted_def
          emitted_of_append detached_def rows_env_simps Let_def)
qed

text \<open>
  Claim C6. During a drag, on a page with a root element, a \<open>mouseout\<close> ends the gesture
  if and only if its \<open>relatedTarget\<close> is the root element; any other \<open>mouseout\<close> leaves the
  state as it is. The gesture ends by \<open>abort\<close>, not \<open>drop\<close>, and when \<open>orderHasChanged\<close> is
  false after the abort, \<open>end\<close> is emitted and \<open>changed\<close> is not.
\<close>

theorem onMouseOut_aborts_iff_root:
  assumes "interaction s = Some i" and "findOne e (document s) ''html'' = Some html"
  shows "onMouseOut e out s = (if relatedTarget out = Some html then onDragEnd e None s else s)
       \<and> trace (onDragEnd e None s) = trace s @ detached @ [CallAbort]
       \<and> (\<not> interaction_orderHasChanged e (fst (snd (interaction_abort e i (document s)))) \<longrightarrow>
            emitted (settle e (length (pending s)) (onDragEnd e None s)) = emitted s @ [(''end'', JSUndefined)])"
proof -
  obtain r i' d' where ab: "interaction_abort e i (document s) = (r, i', d')"
    by (cases "interaction_abort e i (document s)") auto
  then have ea: "endAction e None i (document s) = (r, i', d')"
    by (simp add: endAction_def)
  show ?thesis
    using emitted_settle_onDragEnd[OF assms(1) ea]
    by (simp add: onMouseOut_def assms(2) onDragEnd_active[OF assms(1) ea] endCall_def ab)
qed

theorem onMouseOut_aborts_iff_root_witness:
  "interaction moved = Some (picked\<lparr>currentBefore := None\<rparr>)
   \<and> findOne rows_env (document moved) ''html'' = Some 0
   \<and> onMouseOut rows_env (mouseout_to (Some 0)) moved = onDragEnd rows_env None moved
   \<and> onMouseOut rows_env (mouseout_to (Some 11)) moved = moved
   \<and> onMouseOut rows_env (mouseout_to None) moved = moved
   \<and> trace (onDragEnd rows_env None moved) =
       trace moved @
       [RemoveListener Body ''mousemove'' ListenerMove,
        RemoveListener Body ''mouseup'' ListenerEnd,
        RemoveListener Window ''mouseout'' ListenerMouseOut,
        RemoveListener Window ''scroll'' ListenerScroll,
        CallAbort]
   \<and> \<not> interaction_orderHasChanged rows_env
         (fst (snd (interaction_abort rows_env (picked\<lparr>currentBefore := None\<rparr>) (document moved))))
   \<and> emitted (settle rows_env 0 (onDragEnd rows_env None moved)) =
       [(''start'', JSArray [Some 10]), (''end'', JSUndefined)]"
proof -
  have h: "interaction moved = Some (picked\<lparr>currentBefore := None\<rparr>)"
    "findOne rows_env (document moved) ''html'' = Some 0"
    by (simp_all add: moved_eq rows_env_simps page_simps)
  have d: "document moved = abc\<lparr>rows := [11, 12, 10]\<rparr>" "pending moved = []"
    "emitted moved = [(''start'', JSArray [Some 10])]"
    by (simp_all add: moved_eq dragging_eq emitted_def)
  have nc: "\<not> interaction_orderHasChanged rows_env picked"
    by (simp add: rows_env_simps page_simps)
  show ?thesis
    using h nc onMouseOut_aborts_iff_root[OF h, of "mouseout_to (Some 0)"]
      onMouseOut_aborts_iff_root[OF h, of "mouseout_to (Some 11)"]
      onMouseOut_aborts_iff_root[OF h, of "mouseout_to None"]
    by (simp add: d abort_moved detached_def page_simps)
qed

text \<open>
  Claim C7. While no interaction is held, \<open>onDragMove\<close>, \<open>onDragEnd\<close> and \<open>onScroll\<close>
  return at their guard: the state, and so the trace of emitted events, is the same
  afterwards. The guard comes before any use of the interaction, so nothing is raised.
\<close>

theorem handlers_idle_noop:
  assumes "interaction s = None"
  shows "onDragMove e event s = s \<and> onDragEnd e end_event s = s \<and> onScroll e s = s"
  using assms by (simp add: onDragMove_def onDragEnd_def onScroll_def)

theorem handlers_idle_noop_witness:
  "interaction idle = None
   \<and> onDragMove rows_env (mouse_at 2) idle = idle
   \<and> onDragEnd rows_env (Some (mouse_at 2)) idle = idle
   \<and> onScroll rows_env idle = idle"
proof -
  have h: "interaction idle = None"
    by (simp add: idle_eq)
  show ?thesis
    using h handlers_idle_noop[OF h, of rows_env "mouse_at 2" "Some (mouse_at 2)"]
    by simp
qed


text \<open>
  Claim C8. During a drag \<open>destroy\<close> first ends the gesture by \<open>abort\<close> and then removes
  the delegated listener and clears its token; no listener is left attached. However many
  promises are pending then (one more if the pointer was released before), and in
  whatever order they are fulfilled, \<open>end\<close> is emitted exactly once, and \<open>changed\<close> after
  it only if \<open>orderHasChanged\<close> is true after the abort; the same count holds whatever
  else happens short of a pickup. While idle \<open>destroy\<close> only removes the delegated
  listener and clears its token.
\<close>

theorem destroy_aborts_then_detaches:
  "(interaction s = Some i \<and> wired s \<longrightarrow>
      (let (result, i', d) = interaction_abort e i (document s);
           s1 = destroy e s
       in trace s1 = trace s @ detached @ [CallAbort] @
            (case delegateHandler s of
               None \<Rightarrow> []
             | Some token \<Rightarrow> [RemoveListener (Element (container s)) ''mousedown'' (Intermediate token)])
        \<and> registry s1 = []
        \<and> delegateHandler s1 = None
        \<and> pending s1 = pending s @ [result]
        \<and> (\<forall>ks. pending (run e (map Fulfil ks) s1) = [] \<longrightarrow>
             (\<exists>r \<in> set (pending s @ [result]).
                emitted (run e (map Fulfil ks) s1) =
                  emitted s @ (''end'', JSUndefined) #
                    (if interaction_orderHasChanged e i'
                     then [(''changed'', JSChanged \<lparr>data_items = find_dom e d (items (config s)) (container s),
                                                    data_result = r\<rparr>)]
                     else [])))
        \<and> (\<forall>xs. no_pickup xs \<and> pending (run e xs s1) = [] \<longrightarrow>
             (\<exists>r changed its.
                emitted (run e xs s1) =
                  emitted s @ (''end'', JSUndefined) #
                    (if changed then [(''changed'', JSChanged \<lparr>data_items = its, data_result = r\<rparr>)]
                     else [])))))
 \<and> (interaction s = None \<longrightarrow>
      destroy e s =
        (case delegateHandler s of
           None \<Rightarrow> s
         | Some token \<Rightarrow>
             s\<lparr>registry := removeAll (Element (container s), ''mousedown'', Intermediate token) (registry s),
               trace := trace s @ [RemoveListener (Element (container s)) ''mousedown'' (Intermediate token)],
               delegateHandler := None\<rparr>))"
proof (intro conjI impI)
  assume a: "interaction s = Some i \<and> wired s"
  then have si: "interaction s = Some i" and w: "wired s" by simp_all
  obtain r i' d' where ab: "interaction_abort e i (document s) = (r, i', d')"
    by (cases "interaction_abort e i (document s)") auto
  then have ea: "endAction e None i (document s) = (r, i', d')"
    by (simp add: endAction_def)
  note de = onDragEnd_active[OF si ea]
  have t1: "trace (destroy e s) = trace s @ detached @ [CallAbort] @
            (case delegateHandler s of
               None \<Rightarrow> []
             | Some token \<Rightarrow> [RemoveListener (Element (container s)) ''mousedown'' (Intermediate token)])"
    by (simp add: destroy_eq de endCall_def split: option.splits)
  have r1: "registry (destroy e s) = []"
    using a by (simp add: registry_destroy_active)
  have f: "interaction (destroy e s) = Some i'" "pending (destroy e s) = pending s @ [r]"
    "document (destroy e s) = d'" "emitted (destroy e s) = emitted s"
    by (simp_all add: destroy_eq de emitted_def emitted_of_append detached_def endCall_def
          split: option.splits)
  have l: "\<exists>r' \<in> set (pending s @ [r]).
                emitted (run e (map Fulfil ks) (destroy e s)) =
                  emitted s @ (''end'', JSUndefined) #
                    (if interaction_orderHasChanged e i'
                     then [(''changed'', JSChanged \<lparr>data_items = find_dom e d' (items (config s)) (container s),
                                                    data_result = r'\<rparr>)]
                     else [])"
    if "pending (run e (map Fulfil ks) (destroy e s)) = []" for ks
  proof -
    have ne: "pending (destroy e s) \<noteq> []" by (simp add: f)
    from fulfilments_end_once[OF f(1) that ne] obtain r' where
      "r' \<in> set (pending (destroy e s))"
      "emitted (run e (map Fulfil ks) (destroy e s)) =
         emitted (destroy e s) @ (''end'', JSUndefined) #
           (if interaction_orderHasChanged e i'
            then [(''changed'', JSChanged \<lparr>data_items = find_dom e (document (destroy e s))
                                             (items (config (destroy e s))) (container (destroy e s)),
                                           data_result = r'\<rparr>)]
            else [])"
      by blast
    then have "r' \<in> set (pending s @ [r])"
      "emitted (run e (map Fulfil ks) (destroy e s)) =
         emitted s @ (''end'', JSUndefined) #
           (if interaction_orderHasChanged e i'
            then [(''changed'', JSChanged \<lparr>data_items = find_dom e d' (items (config s)) (container s),
                                           data_result = r'\<rparr>)]
            else [])"
      by (simp_all add: f destroy_fields)
    then show ?thesis by blast
  qed
  have g: "\<exists>r' changed its.
                emitted (run e xs (destroy e s)) =
                  emitted s @ (''end'', JSUndefined) #
                    (if changed then [(''changed'', JSChanged \<lparr>data_items = its, data_result = r'\<rparr>)]
                     else [])"
    if "no_pickup xs \<and> pending (run e xs (destroy e s)) = []" for xs
  proof -
    have "ends_gesture e s Destroy" "no_pickup xs" "pending (run e (Destroy # xs) s) = []"
      using that by simp_all
    from gesture_ends_once[OF si this] obtain r' changed its where
      "emitted (run e (Destroy # xs) s) =
         emitted s @ (''end'', JSUndefined) #
           (if changed then [(''changed'', JSChanged \<lparr>data_items = its, data_result = r'\<rparr>)]
            else [])"
      by blast
    then have "emitted (run e xs (destroy e s)) =
         emitted s @ (''end'', JSUndefined) #
           (if changed then [(''changed'', JSChanged \<lparr>data_items = its, data_result = r'\<rparr>)]
            else [])"
      by simp
    then show ?thesis by blast
  qed
  show "let (result, i', d) = interaction_abort e i (document s);
           s1 = destroy e s
       in trace s1 = trace s @ detached @ [CallAbort] @
            (case delegateHandler s of
               None \<Rightarrow> []
             | Some token \<Rightarrow> [RemoveListener (Element (container s)) ''mousedown'' (Intermediate token)])
        \<and> registry s1 = []
        \<and> delegateHandler s1 = None
        \<and> pending s1 = pending s @ [result]
        \<and> (\<forall>ks. pending (run e (map Fulfil ks) s1) = [] \<longrightarrow>
             (\<exists>r \<in> set (pending s @ [result]).
                emitted (run e (map Fulfil ks) s1) =
                  emitted s @ (''end'', JSUndefined) #
                    (if interaction_orderHasChanged e i'
                     then [(''changed'', JSChanged \<lparr>data_items = find_dom e d (items (config s)) (container s),
                                                    data_result = r\<rparr>)]
                     else [])))
        \<and> (\<forall>xs. no_pickup xs \<and> pending (run e xs s1) = [] \<longrightarrow>
             (\<exists>r changed its.
                emitted (run e xs s1) =
                  emitted s @ (''end'', JSUndefined) #
                    (if changed then [(''changed'', JSChanged \<lparr>data_items = its, data_result = r\<rparr>)]
                     else [])))"
    unfolding ab Let_def prod.case using t1 r1 l g f(2) by (simp add: destroy_fields)
next
  assume "interaction s = None"
  then show "destroy e s =
        (case delegateHandler s of
           None \<Rightarrow> s
         | Some token \<Rightarrow>
             s\<lparr>registry := removeAll (Element (container s), ''mousedown'', Intermediate token) (registry s),
               trace := trace s @ [RemoveListener (Element (container s)) ''mousedown'' (Intermediate token)],
               delegateHandler := None\<rparr>)"
    by (simp add: destroy_eq onDragEnd_idle token_registration_def split: option.splits)
qed

theorem destroy_aborts_then_detaches_witness:
  "interaction released = Some (picked\<lparr>currentBefore := None\<rparr>) \<and> wired released
   \<and> pending released = [\<lparr>item = Some 10, before = None\<rparr>]
   \<and> trace (destroy rows_env released) =
       trace released @
       [RemoveListener Body ''mousemove'' ListenerMove,
        RemoveListener Body ''mouseup'' ListenerEnd,
        RemoveListener Window ''mouseout'' ListenerMouseOut,
        RemoveListener Window ''scroll'' ListenerScroll,
        CallAbort,
        RemoveListener (Element 1) ''mousedown'' (Intermediate 0)]
   \<and> registry (destroy rows_env released) = []
   \<and> delegateHandler (destroy rows_env released) = None
   \<and> pending (destroy rows_env released) =
       [\<lparr>item = Some 10, before = None\<rparr>, \<lparr>item = Some 10, before = Some 11\<rparr>]
   \<and> no_pickup (map Fulfil [1, 0])
   \<and> pending (run rows_env (map Fulfil [1, 0]) (destroy rows_env released)) = []
   \<and> emitted (run rows_env (map Fulfil [1, 0]) (destroy rows_env released)) =
       [(''start'', JSArray [Some 10]), (''end'', JSUndefined)]
   \<and> interaction idle = None
   \<and> destroy rows_env idle =
       idle\<lparr>registry := [],
            trace := trace idle @ [RemoveListener (Element 1) ''mousedown'' (Intermediate 0)],
            delegateHandler := None\<rparr>"
proof -
  have h1: "interaction released = Some (picked\<lparr>currentBefore := None\<rparr>)"
    by (simp add: released_eq)
  have h: "interaction released = Some (picked\<lparr>currentBefore := None\<rparr>) \<and> wired released"
    by (rule conjI[OF h1 released_wired])
  have hi: "interaction idle = None"
    by (simp add: idle_eq)
  have d: "pending released = [\<lparr>item = Some 10, before = None\<rparr>]"
    "trace (destroy rows_env released) =
       trace released @
       [RemoveListener Body ''mousemove'' ListenerMove,
        RemoveListener Body ''mouseup'' ListenerEnd,
        RemoveListener Window ''mouseout'' ListenerMouseOut,
        RemoveListener Window ''scroll'' ListenerScroll,
        CallAbort,
        RemoveListener (Element 1) ''mousedown'' (Intermediate 0)]"
    "registry (destroy rows_env released) = []"
    "delegateHandler (destroy rows_env released) = None"
    "pending (destroy rows_env released) =
       [\<lparr>item = Some 10, before = None\<rparr>, \<lparr>item = Some 10, before = Some 11\<rparr>]"
    unfolding destroy_released_eq by (simp_all add: released_eq detached_def)
  have r: "run rows_env (map Fulfil [1, 0]) (destroy rows_env released) = twice_ended"
    by (simp add: twice_ended_def)
  have p: "pending (run rows_env (map Fulfil [1, 0]) (destroy rows_env released)) = []"
    "emitted (run rows_env (map Fulfil [1, 0]) (destroy rows_env released)) =
       [(''start'', JSArray [Some 10]), (''end'', JSUndefined)]"
    unfolding r by (simp_all add: twice_ended_eq dragging_eq emitted_def detached_def)
  have n: "no_pickup (map Fulfil [1, 0])"
    by simp
  have i: "destroy rows_env idle =
       idle\<lparr>registry := [],
            trace := trace idle @ [RemoveListener (Element 1) ''mousedown'' (Intermediate 0)],
            delegateHandler := None\<rparr>"
    using hi destroy_aborts_then_detaches[of idle picked rows_env]
    by (simp add: idle_eq)
  from destroy_aborts_then_detaches[of released "picked\<lparr>currentBefore := None\<rparr>" rows_env] h
  have "pending (destroy rows_env released) =
      pending released @ [fst (interaction_abort rows_env (picked\<lparr>currentBefore := None\<rparr>) (document released))]"
    by (simp add: Let_def split: prod.splits)
  with h hi d p n i show ?thesis
    by simp
qed

text \<open>
  Claim C9. After one or more calls of \<open>init\<close> the container has exactly one
  \<open>mousedown\<close> listener, the one \<open>delegateHandler\<close> holds. When a listener is already
  installed, \<open>init\<close> removes it (through \<open>destroy\<close>) before it installs the new one. A
  second \<open>init\<close> leaves listeners installed at the same places, for the same events, as
  the first did.
\<close>

theorem init_reinstalls_once:
  assumes "wired s"
  shows "pointerdown (container s) (registry ((init e ^^ Suc n) s)) =
           [(Element (container s), ''mousedown'', Intermediate (fresh s + n))]
       \<and> delegateHandler ((init e ^^ Suc n) s) = Some (fresh s + n)
       \<and> (delegateHandler s \<noteq> None \<or> interaction s = None \<longrightarrow>
            installed (registry (init e (init e s))) = installed (registry (init e s)))
       \<and> (delegateHandler s = Some token \<longrightarrow>
            (\<exists>mid. trace (init e s) = trace s @ mid @
               [RemoveListener (Element (container s)) ''mousedown'' (Intermediate token),
                DelegateListener (Element (container s)) (delegate_selector (config s))
                  ''mousedown'' (fresh s)]))"
proof -
  let ?c = "container s"
  let ?f = "fresh s"
  have n: "wired ((init e ^^ n) s)" "container ((init e ^^ n) s) = ?c" "fresh ((init e ^^ n) s) = ?f + n"
    using init_funpow[OF assms, where e = e and n = n] by simp_all
  have "pointerdown ?c (kept (registry ((init e ^^ Suc n) s))) = [token_registration ?c (?f + n)]"
    by (simp add: kept_init[OF n(1)] n pointerdown_token)
  then have one: "pointerdown ?c (registry ((init e ^^ Suc n) s)) = [(Element ?c, ''mousedown'', Intermediate (?f + n))]"
    by (simp add: pointerdown_kept token_registration_def)
  have tok: "delegateHandler ((init e ^^ Suc n) s) = Some (?f + n)"
    by (simp add: init_fields n)
  have again: "installed (registry (init e (init e s))) = installed (registry (init e s))"
    if h: "delegateHandler s \<noteq> None \<or> interaction s = None"
  proof -
    define s1 where "s1 = (if delegateHandler s \<noteq> None then destroy e s else s)"
    have k1: "kept (registry s1) = []"
      using assms kept_destroy[OF assms, of e] by (auto simp: wired_def s1_def)
    have i1: "registry s1 = []" if ne: "interaction s1 \<noteq> None"
    proof (cases "delegateHandler s = None")
      case True
      with h ne show ?thesis by (simp add: s1_def)
    next
      case False
      with ne have "interaction s \<noteq> None"
        by (simp add: interaction_destroy s1_def)
      with False show ?thesis
        by (simp add: registry_destroy_active[OF assms] s1_def)
    qed
    have reg: "registry (init e s) = registry s1 @ [token_registration ?c ?f]"
      unfolding s1_def by (rule registry_init)
    have int: "interaction (init e s) = interaction s1"
      by (simp add: init_eq Let_def s1_def)
    have des: "registry (destroy e (init e s)) =
        removeAll (token_registration ?c ?f)
          (if interaction s1 = None then registry s1 @ [token_registration ?c ?f]
           else kept (registry s1 @ [token_registration ?c ?f]))"
      by (simp add: registry_destroy init_fields registry_onDragEnd int reg)
    have "registry (destroy e (init e s)) = registry s1"
    proof (cases "interaction s1 = None")
      case True
      then show ?thesis
        by (simp add: des kept_empty_removeAll[OF k1])
    next
      case False
      with i1 have "registry s1 = []" by simp
      with False show ?thesis
        by (auto simp: des kept_token)
    qed
    then have "registry (init e (init e s)) = registry s1 @ [token_registration ?c (Suc ?f)]"
      by (simp add: registry_init[of e "init e s"] init_fields)
    then show ?thesis
      by (simp add: reg installed_def token_registration_def)
  qed
  show ?thesis using one tok again trace_init_installed[of s token e] by blast
qed

theorem init_reinstalls_once_witness:
  "wired idle
   \<and> pointerdown (container idle) (registry ((init rows_env ^^ Suc (Suc 0)) idle)) =
       [(Element 1, ''mousedown'', Intermediate 2)]
   \<and> delegateHandler ((init rows_env ^^ Suc (Suc 0)) idle) = Some 2
   \<and> delegateHandler idle = Some 0
   \<and> installed (registry (init rows_env (init rows_env idle))) = installed (registry (init rows_env idle))
   \<and> (\<exists>mid. trace (init rows_env idle) =
         trace idle @ mid @
         [RemoveListener (Element 1) ''mousedown'' (Intermediate 0),
          DelegateListener (Element 1) ''.item '' ''mousedown'' 1])"
proof -
  have h: "wired idle"
    by (simp add: idle_eq wired_def kept_def gesture_listeners_def token_registration_def)
  have di: "container idle = 1" "delegateHandler idle = Some 0" "fresh idle = 1"
    "delegate_selector (config idle) = ''.item ''"
    by (simp_all add: idle_eq delegate_selector_def)
  show ?thesis
    using h init_reinstalls_once[OF h, where e = rows_env and n = "Suc 0" and token = 0]
    by (simp add: di)
qed




end
